theory Spec2Isabelle
  imports Main "HOL-Library.Sublist" "HOL-Library.Word" "HOL-Library.Char_ord"
    "HOL-Library.List_Lexorder"
begin

unbundle bit_operations_syntax

section \<open>Strings\<close>

text \<open>
  Go strings are byte sequences; they are modelled as \<^typ>\<open>string\<close> (a list of
  8-bit characters). The double quote is written \<open>CHR 0x22\<close>.
\<close>

definition DQ :: char where
  "DQ = CHR 0x22"

definition NL :: char where
  "NL = CHR 0x0A"

text \<open>\<^verbatim>\<open>strings.HasPrefix\<close>, \<^verbatim>\<open>strings.HasSuffix\<close>, \<^verbatim>\<open>strings.TrimPrefix\<close>,
  \<^verbatim>\<open>strings.TrimSuffix\<close>.\<close>

definition HasPrefix :: "string \<Rightarrow> string \<Rightarrow> bool" where
  "HasPrefix s p = prefix p s"

definition HasSuffix :: "string \<Rightarrow> string \<Rightarrow> bool" where
  "HasSuffix s x = suffix x s"

definition TrimPrefix :: "string \<Rightarrow> string \<Rightarrow> string" where
  "TrimPrefix s p = (if HasPrefix s p then drop (length p) s else s)"

definition TrimSuffix :: "string \<Rightarrow> string \<Rightarrow> string" where
  "TrimSuffix s x = (if HasSuffix s x then take (length s - length x) s else s)"

text \<open>
  \<^verbatim>\<open>strings.Split(s, sep)\<close> for a one-byte separator: the pieces between the
  separators, one more piece than there are separators (so never an empty list).
\<close>

fun Split :: "char \<Rightarrow> string \<Rightarrow> string list" where
  "Split c [] = [[]]"
| "Split c (x # xs) =
     (if x = c then [] # Split c xs
      else (case Split c xs of [] \<Rightarrow> [[x]] | w # ws \<Rightarrow> (x # w) # ws))"

text \<open>\<^verbatim>\<open>strings.Join(elems, sep)\<close> for a one-byte separator.\<close>

fun Join_sep :: "char \<Rightarrow> string list \<Rightarrow> string" where
  "Join_sep c [] = []"
| "Join_sep c [w] = w"
| "Join_sep c (w # ws) = w @ c # Join_sep c ws"

text \<open>
  \<^verbatim>\<open>strings.ReplaceAll(s, old, new)\<close>: returns \<open>s\<close> when \<open>old = new\<close>; otherwise the
  leftmost non-overlapping occurrences of \<open>old\<close> are replaced, scanning from the left.
  For an empty \<open>old\<close> Go inserts \<open>new\<close> before every UTF-8 sequence and at the end;
  that case is written here for single-byte characters. Every call in the program passes
  a non-empty literal for \<open>old\<close>.
\<close>

fun replace_scan :: "string \<Rightarrow> string \<Rightarrow> string \<Rightarrow> string" where
  "replace_scan old new [] = []"
| "replace_scan old new (c # cs) =
     (if old \<noteq> [] \<and> prefix old (c # cs)
      then new @ replace_scan old new (drop (length old - 1) cs)
      else c # replace_scan old new cs)"

definition ReplaceAll :: "string \<Rightarrow> string \<Rightarrow> string \<Rightarrow> string" where
  "ReplaceAll s old new =
     (if old = new then s
      else if old = [] then concat (map (\<lambda>c. new @ [c]) s) @ new
      else replace_scan old new s)"

section \<open>The regular expression of \<open>replaceModuleReferences\<close>\<close>

definition oldModule :: string where
  "oldModule = ''github.com/galaplate/galaplate''"

text \<open>
  The pattern is a double quote, the literal old module root, a group \<open>([^"]*)\<close> and a
  double quote. At a given start there is at most one match: the group is the run of
  non-quote bytes after the root, and a quote must follow it. \<open>re_match_at s\<close> is
  \<open>Some (g, rest)\<close> when the pattern matches a prefix of \<open>s\<close> with group \<open>g\<close> and \<open>rest\<close>
  is what follows the match.
\<close>

definition re_match_at :: "string \<Rightarrow> (string \<times> string) option" where
  "re_match_at s =
     (if prefix (DQ # oldModule) s
      then (let t = drop (Suc (length oldModule)) s;
                g = takeWhile (\<lambda>c. c \<noteq> DQ) t;
                r = dropWhile (\<lambda>c. c \<noteq> DQ) t
            in (case r of [] \<Rightarrow> None | q # rest \<Rightarrow> Some (g, rest)))
      else None)"

text \<open>
  \<^verbatim>\<open>Regexp.expand\<close>: in a replacement template \<open>$$\<close> is a dollar sign, \<open>$name\<close> and
  \<open>${name}\<close> are replaced by the text of a group, the name being the longest run of
  letters, digits and underscores; a name of digits only (no leading zero, below \<open>10^8\<close>)
  is a group number, any other name is a named group. A dollar sign followed by no name
  stays. The pattern has group 0 (the whole match) and group 1 and no named group, so every
  other reference expands to nothing. Go reads the name as UTF-8 runes; here a name byte
  is an ASCII letter, digit or underscore.
\<close>

definition is_name_char :: "char \<Rightarrow> bool" where
  "is_name_char c =
     (let n = of_char c :: nat
      in (48 \<le> n \<and> n \<le> 57) \<or> (65 \<le> n \<and> n \<le> 90) \<or> (97 \<le> n \<and> n \<le> 122) \<or> n = 95)"

definition is_digit_char :: "char \<Rightarrow> bool" where
  "is_digit_char c = (let n = of_char c :: nat in 48 \<le> n \<and> n \<le> 57)"

fun parse_num :: "nat \<Rightarrow> string \<Rightarrow> nat option" where
  "parse_num acc [] = Some acc"
| "parse_num acc (c # cs) =
     (if \<not> is_digit_char c \<or> acc \<ge> 100000000 then None
      else parse_num (acc * 10 + (of_char c - 48)) cs)"

definition group_num :: "string \<Rightarrow> nat option" where
  "group_num name =
     (if length name > 1 \<and> hd name = CHR ''0'' then None else parse_num 0 name)"

text \<open>\<^verbatim>\<open>extract_name\<close>: the name after a dollar sign, its group number if any, and the rest of
  the template; \<open>None\<close> when the reference is malformed.\<close>

definition extract_name :: "string \<Rightarrow> (string \<times> nat option \<times> string) option" where
  "extract_name str =
     (if str = [] then None
      else
        let brace = (hd str = CHR 0x7B);
            str1 = (if brace then tl str else str);
            name = takeWhile is_name_char str1;
            after = dropWhile is_name_char str1
        in if name = [] then None
           else if brace then
             (case after of
                [] \<Rightarrow> None
              | c # rest \<Rightarrow> if c = CHR 0x7D then Some (name, group_num name, rest) else None)
           else Some (name, group_num name, after))"

lemma extract_name_rest_length:
  "extract_name str = Some (name, num, rest) \<Longrightarrow> length rest \<le> length str"
proof -
  have a: "length (dropWhile is_name_char xs) \<le> length xs" for xs
    by (rule length_dropWhile_le)
  assume "extract_name str = Some (name, num, rest)"
  then show ?thesis
    using a [of str] a [of "tl str"]
    by (auto simp: extract_name_def Let_def split: if_splits list.splits)
qed

function expand :: "string \<Rightarrow> string list \<Rightarrow> string" where
  "expand [] groups = []"
| "expand (c # t) groups =
     (if c \<noteq> CHR ''$'' then c # expand t groups
      else if t \<noteq> [] \<and> hd t = CHR ''$'' then CHR ''$'' # expand (tl t) groups
      else (case extract_name t of
              None \<Rightarrow> CHR ''$'' # expand t groups
            | Some (name, num, rest) \<Rightarrow>
                (case num of
                   Some n \<Rightarrow> (if n < length groups then groups ! n else [])
                 | None \<Rightarrow> []) @ expand rest groups))"
  by pat_completeness auto
termination
  by (relation "measure (\<lambda>(t, g). length t)")
     (auto dest!: extract_name_rest_length simp: less_Suc_eq_le)

text \<open>
  \<^verbatim>\<open>Regexp.ReplaceAllString\<close> for this pattern: the leftmost match is replaced by the
  expanded template and the scan goes on behind it; where the pattern does not match, the
  byte is kept. The pattern never matches the empty string.
\<close>

lemma re_match_at_rest_length:
  "re_match_at s = Some (g, rest) \<Longrightarrow> length rest < length s"
proof -
  have a: "length (dropWhile (\<lambda>c. c \<noteq> DQ) xs) \<le> length xs" for xs
    by (rule length_dropWhile_le)
  assume "re_match_at s = Some (g, rest)"
  then show ?thesis
    using a [of "drop (Suc (length oldModule)) s"]
    by (auto simp: re_match_at_def Let_def prefix_def split: if_splits list.splits)
qed

function re_ReplaceAllString :: "string \<Rightarrow> string \<Rightarrow> string" where
  "re_ReplaceAllString [] repl = []"
| "re_ReplaceAllString (c # cs) repl =
     (case re_match_at (c # cs) of
        Some (g, rest) \<Rightarrow>
          expand repl [take (length (c # cs) - length rest) (c # cs), g]
            @ re_ReplaceAllString rest repl
      | None \<Rightarrow> c # re_ReplaceAllString cs repl)"
  by pat_completeness auto
termination
  by (relation "measure (\<lambda>(s, r). length s)")
     (auto dest!: re_match_at_rest_length)

definition replaceModuleReferences :: "string \<Rightarrow> string \<Rightarrow> string" where
  "replaceModuleReferences content newModule =
     (let content1 = re_ReplaceAllString content (DQ # newModule @ ''$1'' @ [DQ])
      in ReplaceAll content1 oldModule newModule)"


section \<open>Paths\<close>

text \<open>
  The functions of \<^verbatim>\<open>path/filepath\<close> the program calls, for a Unix system (separator
  \<open>/\<close>, no volume names).

  \<^verbatim>\<open>filepath.Clean\<close> reads the path element by element: an empty element and \<open>.\<close> are
  dropped; \<open>..\<close> removes the element before it when there is one that is not itself
  \<open>..\<close>, is dropped at the root of a rooted path, and is kept otherwise. The result of an
  empty path, or of a relative path with nothing left, is \<open>.\<close>.
\<close>

definition SEP :: char where
  "SEP = CHR ''/''"

fun clean_elems :: "bool \<Rightarrow> string list \<Rightarrow> string list \<Rightarrow> string list" where
  "clean_elems rooted [] out = out"
| "clean_elems rooted (e # es) out =
     (if e = [] \<or> e = ''.'' then clean_elems rooted es out
      else if e = ''..'' then
        (if out \<noteq> [] \<and> last out \<noteq> ''..'' then clean_elems rooted es (butlast out)
         else if \<not> rooted then clean_elems rooted es (out @ [''..''])
         else clean_elems rooted es out)
      else clean_elems rooted es (out @ [e]))"

definition Clean :: "string \<Rightarrow> string" where
  "Clean path =
     (if path = [] then ''.''
      else
        let rooted = (hd path = SEP);
            out = clean_elems rooted (Split SEP path) []
        in if rooted then SEP # Join_sep SEP out
           else if out = [] then ''.''
           else Join_sep SEP out)"

text \<open>\<^verbatim>\<open>filepath.Join\<close>: the elements from the first non-empty one on, joined by the
  separator and cleaned; the empty string when every element is empty.\<close>

definition Join :: "string list \<Rightarrow> string" where
  "Join elem =
     (case dropWhile (\<lambda>e. e = []) elem of
        [] \<Rightarrow> []
      | e # es \<Rightarrow> Clean (Join_sep SEP (e # es)))"

text \<open>\<^verbatim>\<open>filepath.Dir\<close>: the path up to its last separator, cleaned.\<close>

definition Dir :: "string \<Rightarrow> string" where
  "Dir path = Clean (rev (dropWhile (\<lambda>c. c \<noteq> SEP) (rev path)))"

text \<open>\<^verbatim>\<open>filepath.Base\<close>: the last element of the path, trailing separators removed
  first; \<open>.\<close> for the empty path and \<open>/\<close> for a path of separators only.\<close>

definition Base :: "string \<Rightarrow> string" where
  "Base path =
     (if path = [] then ''.''
      else
        let p = rev (dropWhile (\<lambda>c. c = SEP) (rev path));
            b = rev (takeWhile (\<lambda>c. c \<noteq> SEP) (rev p))
        in if b = [] then [SEP] else b)"

text \<open>
  \<^verbatim>\<open>filepath.Rel(basepath, targpath)\<close>: both paths are cleaned; equal paths give \<open>.\<close>;
  a rooted and an unrooted path cannot be related; otherwise the common leading elements
  are dropped, every element left of the base becomes \<open>..\<close>, and the elements left of
  the target follow. The path \<open>.\<close> has no elements, as base and as target. A base whose
  first remaining element is \<open>..\<close> is an error.
\<close>

datatype error =
    ConfigError
  | PreexistingDestinationError
  | NetworkError
  | HTTPStatusError nat
  | ArchiveFormatError
  | FilesystemError string
  | RelError

definition path_elems :: "string \<Rightarrow> string list" where
  "path_elems p = (if p = [] then [] else if p = [SEP] then [[]] else Split SEP p)"

fun strip_common :: "string list \<Rightarrow> string list \<Rightarrow> string list \<times> string list" where
  "strip_common (b # bs) (t # ts) =
     (if b = t then strip_common bs ts else (b # bs, t # ts))"
| "strip_common bs ts = (bs, ts)"

definition Rel :: "string \<Rightarrow> string \<Rightarrow> error + string" where
  "Rel basepath targpath =
     (let base = Clean basepath; targ = Clean targpath in
      if targ = base then Inr ''.''
      else
        let base1 = (if base = ''.'' then [] else base);
            targ1 = (if targ = ''.'' then [] else targ);
            baseSlashed = (base1 \<noteq> [] \<and> hd base1 = SEP);
            targSlashed = (targ1 \<noteq> [] \<and> hd targ1 = SEP)
        in if baseSlashed \<noteq> targSlashed then Inl RelError
           else (case strip_common (path_elems base1) (path_elems targ1) of
                   (bs, ts) \<Rightarrow>
                     if bs \<noteq> [] \<and> hd bs = ''..'' then Inl RelError
                     else Inr (Join_sep SEP (replicate (length bs) ''..'' @ ts))))"


section \<open>File names and cleaned paths\<close>

text \<open>A file name is an element that is not empty, not \<open>.\<close> or \<open>..\<close>, and has no
  separator. The elements of a cleaned path are file names, after leading \<open>..\<close> elements
  if the path is relative.\<close>

definition plain :: "string \<Rightarrow> bool" where
  "plain e = (e \<noteq> [] \<and> e \<noteq> ''.'' \<and> e \<noteq> ''..'' \<and> SEP \<notin> set e)"

definition normal_elems :: "bool \<Rightarrow> string list \<Rightarrow> bool" where
  "normal_elems rooted xs =
     (list_all plain (dropWhile (\<lambda>e. e = ''..'') xs) \<and> (rooted \<longrightarrow> list_all plain xs))"

section \<open>The file system\<close>

text \<open>
  An entry of the file system is named by a pair: whether the path is rooted, and its
  elements. A relative path is relative to the working directory, which does not change
  while the files are written; a relative and a rooted path never name the same entry.
  There are no symbolic links (the extractor creates none), and every operation is allowed
  by the permission bits of the entries it touches.

  \<open>resolve\<close> is the lexical resolution of a path, as \<^verbatim>\<open>filepath.Clean\<close> does it. The
  system resolves a path element by element instead (\<open>locate\<close> below): it fails where an
  element on the way is missing or is not a directory, and where it succeeds it arrives at
  the entry \<open>resolve\<close> names.
\<close>

type_synonym path = "bool \<times> string list"
type_synonym mode = "32 word"

definition resolve :: "string \<Rightarrow> path" where
  "resolve name =
     (let rooted = (name \<noteq> [] \<and> hd name = SEP)
      in (rooted, clean_elems rooted (Split SEP name) []))"

definition render :: "path \<Rightarrow> string" where
  "render p =
     (if fst p then SEP # Join_sep SEP (snd p)
      else if snd p = [] then ''.'' else Join_sep SEP (snd p))"

text \<open>\<open>under r p\<close>: the entry \<open>p\<close> is the directory \<open>r\<close> or lies below it.\<close>

definition under :: "path \<Rightarrow> path \<Rightarrow> bool" where
  "under r p = (fst r = fst p \<and> prefix (snd r) (snd p))"

definition parent :: "path \<Rightarrow> path" where
  "parent p = (fst p, butlast (snd p))"

text \<open>
  An entry is a regular file, with its permission bits and content, or a directory with
  its permission bits. The root, the working directory and its ancestors \<open>..\<close>,
  \<open>../..\<close> always exist; they are not listed. The state also holds the process's umask.
\<close>

datatype node = File mode string | Directory mode

fun is_dir :: "node \<Rightarrow> bool" where
  "is_dir (Directory m) = True"
| "is_dir (File m c) = False"

record fsys =
  entries :: "(path \<times> node) list"
  umask :: mode

definition anchor :: "path \<Rightarrow> bool" where
  "anchor p = list_all (\<lambda>e. e = ''..'') (snd p)"

definition lookup :: "fsys \<Rightarrow> path \<Rightarrow> node option" where
  "lookup w p = (if anchor p then Some (Directory 0x1ED) else map_of (entries w) p)"

definition put :: "fsys \<Rightarrow> path \<Rightarrow> node \<Rightarrow> fsys" where
  "put w p n = w\<lparr>entries := (p, n) # filter (\<lambda>(k, v). k \<noteq> p) (entries w)\<rparr>"

definition remove_under :: "fsys \<Rightarrow> path \<Rightarrow> fsys" where
  "remove_under w r = w\<lparr>entries := filter (\<lambda>(k, v). \<not> under r k) (entries w)\<rparr>"

text \<open>The permission bits a system call keeps of a \<^verbatim>\<open>FileMode\<close> (\<open>0777\<close>), and the
  bits a new entry gets under the umask.\<close>

definition perm_bits :: "mode \<Rightarrow> mode" where
  "perm_bits m = m AND 0x1FF"

definition new_mode :: "fsys \<Rightarrow> mode \<Rightarrow> mode" where
  "new_mode w m = perm_bits m AND NOT (umask w)"

text \<open>
  How the system resolves a path. It starts at the root or at the working directory and
  takes the elements between the separators one by one. Before each element the place it
  has reached must be a directory: a missing entry is the error \<open>ENOENT\<close>, a file
  \<open>ENOTDIR\<close>. An empty element and \<open>.\<close> stay in that directory, \<open>..\<close> goes to the one
  above, a name goes to the entry of that name, which is not looked at before the next
  element is taken. So the last element may name an entry that does not exist; a path
  with a trailing separator names a directory. The empty path names nothing.
\<close>

definition step :: "path \<Rightarrow> string \<Rightarrow> path" where
  "step cur c =
     (if c = [] \<or> c = ''.'' then cur
      else if c = ''..'' then
        (if snd cur \<noteq> [] \<and> last (snd cur) \<noteq> ''..'' then (fst cur, butlast (snd cur))
         else if \<not> fst cur then (fst cur, snd cur @ [''..''])
         else cur)
      else (fst cur, snd cur @ [c]))"

fun walk_comps :: "fsys \<Rightarrow> path \<Rightarrow> string list \<Rightarrow> error + path" where
  "walk_comps w cur [] = Inr cur"
| "walk_comps w cur (c # cs) =
     (case lookup w cur of
        None \<Rightarrow> Inl (FilesystemError ''ENOENT'')
      | Some (File m d) \<Rightarrow> Inl (FilesystemError ''ENOTDIR'')
      | Some (Directory m) \<Rightarrow> walk_comps w (step cur c) cs)"

definition locate :: "fsys \<Rightarrow> string \<Rightarrow> error + path" where
  "locate w name =
     (if name = [] then Inl (FilesystemError ''ENOENT'')
      else walk_comps w (hd name = SEP, []) (Split SEP name))"

text \<open>\<^verbatim>\<open>os.Stat\<close>.\<close>

definition os_Stat :: "fsys \<Rightarrow> string \<Rightarrow> error + node" where
  "os_Stat w name =
     (case locate w name of
        Inl e \<Rightarrow> Inl e
      | Inr p \<Rightarrow>
          (case lookup w p of
             None \<Rightarrow> Inl (FilesystemError ''ENOENT'')
           | Some n \<Rightarrow> Inr n))"

text \<open>\<^verbatim>\<open>os.Mkdir\<close>: the entry must not exist and its parent must be a directory. The
  system call accepts separators after the name of the new directory.\<close>

definition mkdir_at :: "fsys \<Rightarrow> path \<Rightarrow> mode \<Rightarrow> error + fsys" where
  "mkdir_at w p perm =
     (case lookup w p of
        Some n \<Rightarrow> Inl (FilesystemError ''EEXIST'')
      | None \<Rightarrow>
          (case lookup w (parent p) of
             Some (Directory m) \<Rightarrow> Inr (put w p (Directory (new_mode w perm)))
           | Some (File m c) \<Rightarrow> Inl (FilesystemError ''ENOTDIR'')
           | None \<Rightarrow> Inl (FilesystemError ''ENOENT'')))"

definition trim_seps :: "string \<Rightarrow> string" where
  "trim_seps name =
     (let n = rev (dropWhile (\<lambda>c. c = SEP) (rev name)) in if n = [] then name else n)"

definition os_Mkdir :: "fsys \<Rightarrow> string \<Rightarrow> mode \<Rightarrow> error + fsys" where
  "os_Mkdir w name perm =
     (case locate w (trim_seps name) of
        Inl e \<Rightarrow> Inl e
      | Inr p \<Rightarrow> mkdir_at w p perm)"

text \<open>
  \<^verbatim>\<open>os.MkdirAll\<close>: nothing to do when \<^verbatim>\<open>os.Stat\<close> finds a directory, an error when it
  finds a file. Otherwise the parent is made first, by the same function, and then the
  directory itself by \<^verbatim>\<open>os.Mkdir\<close>; when that fails and the path is a directory all the
  same (as for \<open>a/.\<close>) there is no error. The parent is taken from the text of the path:
  what stands before the last element and its separator, trailing separators set aside;
  there is none when that is empty or the path has one element.
\<close>

definition mkdir_parent :: "string \<Rightarrow> string option" where
  "mkdir_parent path =
     (let q = dropWhile (\<lambda>c. c \<noteq> SEP) (dropWhile (\<lambda>c. c = SEP) (rev path))
      in if length q > 1 then Some (rev (tl q)) else None)"

lemma mkdir_parent_length:
  "mkdir_parent path = Some parent_path \<Longrightarrow> length parent_path < length path"
proof -
  let ?a = "dropWhile (\<lambda>c. c = SEP) (rev path)"
  let ?q = "dropWhile (\<lambda>c. c \<noteq> SEP) ?a"
  assume "mkdir_parent path = Some parent_path"
  then have p: "parent_path = rev (tl ?q)" and l: "length ?q > 1"
    by (auto simp: mkdir_parent_def Let_def split: if_splits)
  have "length ?q \<le> length ?a" by (rule length_dropWhile_le)
  also have "\<dots> \<le> length (rev path)" by (rule length_dropWhile_le)
  finally have "length ?q \<le> length path" by simp
  with p l show ?thesis by simp
qed

function os_MkdirAll :: "fsys \<Rightarrow> string \<Rightarrow> mode \<Rightarrow> error + fsys" where
  "os_MkdirAll w path perm =
     (case os_Stat w path of
        Inr (Directory m) \<Rightarrow> Inr w
      | Inr (File m c) \<Rightarrow> Inl (FilesystemError ''ENOTDIR'')
      | Inl e0 \<Rightarrow>
          (case (case mkdir_parent path of
                   None \<Rightarrow> Inr w
                 | Some parent_path \<Rightarrow> os_MkdirAll w parent_path perm) of
             Inl e \<Rightarrow> Inl e
           | Inr w1 \<Rightarrow>
               (case os_Mkdir w1 path perm of
                  Inr w2 \<Rightarrow> Inr w2
                | Inl e \<Rightarrow>
                    (case os_Stat w1 path of
                       Inr (Directory m) \<Rightarrow> Inr w1
                     | _ \<Rightarrow> Inl e))))"
  by pat_completeness auto
termination
  by (relation "measure (\<lambda>(w, path, perm). length path)")
     (auto dest: mkdir_parent_length)

declare os_MkdirAll.simps [simp del]

text \<open>
  Opening a file for writing with \<^verbatim>\<open>O_CREATE|O_TRUNC\<close>, as \<^verbatim>\<open>os.Create\<close> (mode
  \<open>0666\<close>) and \<^verbatim>\<open>os.WriteFile\<close> do: an existing file is emptied and keeps its
  permission bits; a missing one is created in an existing directory with the given bits
  less the umask.
\<close>

definition open_trunc :: "fsys \<Rightarrow> path \<Rightarrow> mode \<Rightarrow> error + fsys" where
  "open_trunc w p perm =
     (case lookup w p of
        Some (Directory m) \<Rightarrow> Inl (FilesystemError ''EISDIR'')
      | Some (File m c) \<Rightarrow> Inr (put w p (File m []))
      | None \<Rightarrow>
          (case lookup w (parent p) of
             Some (Directory m) \<Rightarrow> Inr (put w p (File (new_mode w perm) []))
           | Some (File m c) \<Rightarrow> Inl (FilesystemError ''ENOTDIR'')
           | None \<Rightarrow> Inl (FilesystemError ''ENOENT'')))"

definition os_Create :: "fsys \<Rightarrow> string \<Rightarrow> error + fsys" where
  "os_Create w name =
     (case locate w name of
        Inl e \<Rightarrow> Inl e
      | Inr p \<Rightarrow> open_trunc w p 0x1B6)"

text \<open>Writing through an open handle replaces the content of the file it names.\<close>

definition write_handle :: "fsys \<Rightarrow> path \<Rightarrow> string \<Rightarrow> error + fsys" where
  "write_handle w p data =
     (case lookup w p of
        Some (File m c) \<Rightarrow> Inr (put w p (File m data))
      | Some (Directory m) \<Rightarrow> Inl (FilesystemError ''EISDIR'')
      | None \<Rightarrow> Inl (FilesystemError ''EBADF''))"

definition os_WriteFile :: "fsys \<Rightarrow> string \<Rightarrow> string \<Rightarrow> mode \<Rightarrow> error + fsys" where
  "os_WriteFile w name data perm =
     (case locate w name of
        Inl e \<Rightarrow> Inl e
      | Inr p \<Rightarrow>
          (case open_trunc w p perm of
             Inl e \<Rightarrow> Inl e
           | Inr w1 \<Rightarrow> write_handle w1 p data))"

text \<open>\<^verbatim>\<open>os.Chmod\<close> sets the permission bits of an existing entry; the umask plays no
  part.\<close>

definition os_Chmod :: "fsys \<Rightarrow> string \<Rightarrow> mode \<Rightarrow> error + fsys" where
  "os_Chmod w name m =
     (case locate w name of
        Inl e \<Rightarrow> Inl e
      | Inr p \<Rightarrow>
          (case lookup w p of
             None \<Rightarrow> Inl (FilesystemError ''ENOENT'')
           | Some (File m0 c) \<Rightarrow> Inr (put w p (File (perm_bits m) c))
           | Some (Directory m0) \<Rightarrow> Inr (put w p (Directory (perm_bits m)))))"

text \<open>Reading a whole file (\<^verbatim>\<open>io.ReadAll\<close> on an open handle).\<close>

definition read_file :: "fsys \<Rightarrow> path \<Rightarrow> error + string" where
  "read_file w p =
     (case lookup w p of
        Some (File m c) \<Rightarrow> Inr c
      | Some (Directory m) \<Rightarrow> Inl (FilesystemError ''EISDIR'')
      | None \<Rightarrow> Inl (FilesystemError ''ENOENT''))"

text \<open>\<^verbatim>\<open>os.RemoveAll\<close> removes the entry and everything below it; a path that cannot be
  resolved removes nothing, and a path whose last element is \<open>.\<close> is refused.\<close>

definition ends_with_dot :: "string \<Rightarrow> bool" where
  "ends_with_dot name = (name = ''.'' \<or> suffix ''/.'' name)"

definition os_RemoveAll :: "fsys \<Rightarrow> string \<Rightarrow> fsys" where
  "os_RemoveAll w name =
     (if ends_with_dot name then w
      else case locate w name of
             Inl e \<Rightarrow> w
           | Inr p \<Rightarrow> remove_under w p)"

text \<open>
  \<^verbatim>\<open>os.MkdirTemp\<close> makes a directory with a fresh name and mode \<open>0700\<close>. The name is
  chosen by the system; the model is given the name that was chosen.
\<close>

definition os_MkdirTemp :: "fsys \<Rightarrow> string \<Rightarrow> error + fsys" where
  "os_MkdirTemp w name = os_Mkdir w name 0x1C0"

text \<open>\<open>visible w p\<close>: the entry \<open>p\<close> is a directory and so is every entry above it, so
  that the system reaches it.\<close>

definition is_directory :: "fsys \<Rightarrow> path \<Rightarrow> bool" where
  "is_directory w p = (case lookup w p of Some (Directory m) \<Rightarrow> True | _ \<Rightarrow> False)"

definition visible :: "fsys \<Rightarrow> path \<Rightarrow> bool" where
  "visible w p =
     list_all (\<lambda>i. is_directory w (fst p, take i (snd p))) [0..<Suc (length (snd p))]"


section \<open>Fetching and extracting the archive\<close>

text \<open>
  What the program reads from outside: the name \<^verbatim>\<open>os.MkdirTemp\<close> chose, the answer
  of \<^verbatim>\<open>http.Get\<close> for a URL, and what the external tools (\<^verbatim>\<open>git\<close>,
  \<^verbatim>\<open>go mod tidy\<close>) do to the files. An answer is a transport error, or a status with a
  body; the body is not gzip data (\<open>None\<close>), or a tar stream. A tar stream is the list of
  what \<^verbatim>\<open>tr.Next()\<close> returns until the end of the archive: a header with its payload,
  or an error. The payload is read to its end (\<open>Whole\<close>), or reading it fails after some
  bytes (\<open>Broken\<close>).
\<close>

record header =
  Header_Name :: string
  Header_Typeflag :: char
  Header_Mode :: int

definition TypeReg :: char where
  "TypeReg = CHR ''0''"

definition TypeDir :: char where
  "TypeDir = CHR ''5''"

datatype payload = Whole string | Broken string

datatype tar_item = Entry header payload | BadEntry

datatype http_result = GetFailed | Response nat "tar_item list option"

record env =
  temp_name :: string
  http_Get :: "string \<Rightarrow> http_result"
  git_tool :: "fsys \<Rightarrow> fsys"
  go_tool :: "fsys \<Rightarrow> fsys"

text \<open>\<^verbatim>\<open>os.FileMode(header.Mode)\<close>: the 64-bit mode of the header cut to 32 bits.\<close>

definition FileMode :: "int \<Rightarrow> mode" where
  "FileMode m = word_of_int m"

text \<open>The path an entry is written to (lines 213 to 219); \<open>None\<close> for an entry that is
  skipped.\<close>

definition entry_path :: "string \<Rightarrow> string \<Rightarrow> string option" where
  "entry_path tempDir name =
     (let parts = Split SEP name
      in if length parts \<le> 1 then None
         else Some (Join [tempDir, Join (tl parts)]))"

text \<open>
  One round of the loop over the archive, for a header that was read: the error, if any,
  and the files as they are then. (The caller removes the scratch directory on an error.)
  \<^verbatim>\<open>io.Copy\<close> writes what it has read of the payload through the handle
  \<^verbatim>\<open>os.Create\<close> returned, also when reading fails later.
\<close>

definition extract_entry ::
  "fsys \<Rightarrow> string \<Rightarrow> header \<Rightarrow> payload \<Rightarrow> error option \<times> fsys" where
  "extract_entry w tempDir hdr payload =
     (case entry_path tempDir (Header_Name hdr) of
        None \<Rightarrow> (None, w)
      | Some path \<Rightarrow>
          if Header_Typeflag hdr = TypeDir then
            (case os_MkdirAll w path (FileMode (Header_Mode hdr)) of
               Inl e \<Rightarrow> (Some e, w)
             | Inr w1 \<Rightarrow> (None, w1))
          else if Header_Typeflag hdr = TypeReg then
            (case os_MkdirAll w (Dir path) 0x1ED of
               Inl e \<Rightarrow> (Some e, w)
             | Inr w1 \<Rightarrow>
                 (case os_Create w1 path of
                    Inl e \<Rightarrow> (Some e, w1)
                  | Inr w2 \<Rightarrow>
                      (case payload of
                         Broken part \<Rightarrow>
                           (case write_handle w2 (resolve path) part of
                              Inl e \<Rightarrow> (Some e, w2)
                            | Inr w3 \<Rightarrow> (Some ArchiveFormatError, w3))
                       | Whole data \<Rightarrow>
                           (case write_handle w2 (resolve path) data of
                              Inl e \<Rightarrow> (Some e, w2)
                            | Inr w3 \<Rightarrow>
                                (case os_Chmod w3 path (FileMode (Header_Mode hdr)) of
                                   Inl e \<Rightarrow> (Some e, w3)
                                 | Inr w4 \<Rightarrow> (None, w4))))))
          else (None, w))"

fun extract_all :: "fsys \<Rightarrow> string \<Rightarrow> tar_item list \<Rightarrow> error option \<times> fsys" where
  "extract_all w tempDir [] = (None, w)"
| "extract_all w tempDir (BadEntry # items) = (Some ArchiveFormatError, os_RemoveAll w tempDir)"
| "extract_all w tempDir (Entry hdr payload # items) =
     (case extract_entry w tempDir hdr payload of
        (Some e, w1) \<Rightarrow> (Some e, os_RemoveAll w1 tempDir)
      | (None, w1) \<Rightarrow> extract_all w1 tempDir items)"

definition archive_url :: "string \<Rightarrow> string \<Rightarrow> string \<Rightarrow> string" where
  "archive_url owner repo branch =
     ''https://github.com/'' @ owner @ ''/'' @ repo @ ''/archive/refs/heads/'' @ branch
       @ ''.tar.gz''"

definition downloadGitHubRepo ::
  "env \<Rightarrow> fsys \<Rightarrow> string \<Rightarrow> string \<Rightarrow> string \<Rightarrow> (error + string) \<times> fsys" where
  "downloadGitHubRepo ev w owner repo branch =
     (case os_MkdirTemp w (temp_name ev) of
        Inl e \<Rightarrow> (Inl e, w)
      | Inr w1 \<Rightarrow>
          let tempDir = temp_name ev in
          (case http_Get ev (archive_url owner repo branch) of
             GetFailed \<Rightarrow> (Inl NetworkError, os_RemoveAll w1 tempDir)
           | Response status body \<Rightarrow>
               if status \<noteq> 200 then (Inl (HTTPStatusError status), os_RemoveAll w1 tempDir)
               else
                 (case body of
                    None \<Rightarrow> (Inl ArchiveFormatError, os_RemoveAll w1 tempDir)
                  | Some items \<Rightarrow>
                      (case extract_all w1 tempDir items of
                         (Some e, w2) \<Rightarrow> (Inl e, w2)
                       | (None, w2) \<Rightarrow> (Inr tempDir, w2)))))"

section \<open>Copying one file\<close>

record ProjectOptions =
  Name :: string
  Template :: string
  DbType :: string
  Module :: string
  NoGit :: bool
  Force :: bool

text \<open>\<^verbatim>\<open>os.Open\<close>: the handle of an existing entry is the entry it names.\<close>

definition os_Open :: "fsys \<Rightarrow> string \<Rightarrow> error + path" where
  "os_Open w name =
     (case locate w name of
        Inl e \<Rightarrow> Inl e
      | Inr p \<Rightarrow>
          (case lookup w p of
             None \<Rightarrow> Inl (FilesystemError ''ENOENT'')
           | Some n \<Rightarrow> Inr p))"

text \<open>The text written by the template branch (lines 348 to 352): four replacements, one
  after the other.\<close>

definition template_text :: "ProjectOptions \<Rightarrow> string \<Rightarrow> string" where
  "template_text opts content =
     (let s1 = ReplaceAll content ''{{PROJECT_NAME}}'' (Name opts);
          s2 = ReplaceAll s1 ''{{MODULE_NAME}}'' (Module opts);
          s3 = ReplaceAll s2 ''{{DB_TYPE}}'' (DbType opts)
      in ReplaceAll s3 ''{{GALAPLATE_CORE_VERSION}}'' ''v0.0.0'')"

text \<open>The text written for \<^verbatim>\<open>go.mod\<close> (line 369).\<close>

definition manifest_text :: "ProjectOptions \<Rightarrow> string \<Rightarrow> string" where
  "manifest_text opts content =
     ReplaceAll content (''module '' @ oldModule) (''module '' @ Module opts)"

text \<open>
  \<^verbatim>\<open>copyFile\<close>: the source is opened, the directory of the destination is made, and the
  destination is created (and so emptied) before the name of the source is looked at.
  The result is the error, if any, and the files as they are then.
\<close>

definition copyFile ::
  "fsys \<Rightarrow> string \<Rightarrow> string \<Rightarrow> ProjectOptions \<Rightarrow> error option \<times> fsys" where
  "copyFile w src dest opts =
     (case os_Open w src of
        Inl e \<Rightarrow> (Some e, w)
      | Inr srcFile \<Rightarrow>
     (case os_MkdirAll w (Dir dest) 0x1ED of
        Inl e \<Rightarrow> (Some e, w)
      | Inr w1 \<Rightarrow>
     (case os_Create w1 dest of
        Inl e \<Rightarrow> (Some e, w1)
      | Inr w2 \<Rightarrow>
     if HasSuffix src ''.template'' then
       (let dest1 = TrimSuffix dest ''.template'' in
        case read_file w2 srcFile of
          Inl e \<Rightarrow> (Some e, w2)
        | Inr content \<Rightarrow>
            (case os_WriteFile w2 dest1 (template_text opts content) 0x1A4 of
               Inl e \<Rightarrow> (Some e, w2)
             | Inr w3 \<Rightarrow> (None, w3)))
     else if Base src = ''go.mod'' \<or> HasSuffix src ''.go'' then
       (case read_file w2 srcFile of
          Inl e \<Rightarrow> (Some e, w2)
        | Inr content \<Rightarrow>
            (let contentStr =
                   (if Base src = ''go.mod'' then manifest_text opts content
                    else replaceModuleReferences content (Module opts))
             in case os_WriteFile w2 dest contentStr 0x1A4 of
                  Inl e \<Rightarrow> (Some e, w2)
                | Inr w3 \<Rightarrow> (None, w3)))
     else
       (case read_file w2 srcFile of
          Inl e \<Rightarrow> (Some e, w2)
        | Inr content \<Rightarrow>
            (case write_handle w2 (resolve dest) content of
               Inl e \<Rightarrow> (Some e, w2)
             | Inr w3 \<Rightarrow> (None, w3))))))"

section \<open>Walking the scratch tree\<close>

text \<open>
  \<^verbatim>\<open>filepath.Walk\<close> visits the root and then, for a directory, its entries in the order of
  their names, each directory before what it holds. That is the order of the paths below
  the root as lists of names. The function called at each entry answers \<^verbatim>\<open>nil\<close>,
  \<^verbatim>\<open>SkipDir\<close> or an error: \<^verbatim>\<open>SkipDir\<close> at a directory skips what is below it,
  \<^verbatim>\<open>SkipDir\<close> at a file skips the rest of the directory the file is in, and an error
  ends the walk. The entries are listed when the walk starts; the copier writes below the
  destination only. An entry is reached through directories only, and the names a directory
  lists are file names.
\<close>

datatype walk_ret = Continue | SkipDir | Fail error

type_synonym WalkFunc = "fsys \<Rightarrow> string \<Rightarrow> error + node \<Rightarrow> walk_ret \<times> fsys"

definition reachable :: "fsys \<Rightarrow> path \<Rightarrow> string list \<Rightarrow> bool" where
  "reachable w r rel =
     list_all (\<lambda>i. case lookup w (fst r, snd r @ take i rel) of
                      Some (Directory m) \<Rightarrow> True
                    | _ \<Rightarrow> False) [0..<length rel]"

definition walk_listing :: "fsys \<Rightarrow> path \<Rightarrow> (string list \<times> node) list" where
  "walk_listing w r =
     (case lookup w r of
        None \<Rightarrow> []
      | Some n \<Rightarrow>
          ([], n) #
          (if is_dir n then
             sort_key fst
               (remdups
                  [(drop (length (snd r)) (snd k), v).
                     (k, v) \<leftarrow> entries w,
                     fst k = fst r \<and> strict_prefix (snd r) (snd k) \<and> lookup w k = Some v
                       \<and> list_all plain (drop (length (snd r)) (snd k))
                       \<and> reachable w r (drop (length (snd r)) (snd k))])
           else []))"

text \<open>The path \<^verbatim>\<open>walk\<close> hands to the function: the root as it was given, and below it
  \<^verbatim>\<open>Join(path, name)\<close> at each level.\<close>

definition walk_path :: "string \<Rightarrow> string list \<Rightarrow> string" where
  "walk_path root rel = foldl (\<lambda>p name. Join [p, name]) root rel"

function walk_entries ::
  "WalkFunc \<Rightarrow> fsys \<Rightarrow> string \<Rightarrow> (string list \<times> node) list \<Rightarrow> error option \<times> fsys" where
  "walk_entries fn w root [] = (None, w)"
| "walk_entries fn w root ((rel, n) # es) =
     (case fn w (walk_path root rel) (Inr n) of
        (Fail e, w1) \<Rightarrow> (Some e, w1)
      | (SkipDir, w1) \<Rightarrow>
          if is_dir n
          then walk_entries fn w1 root (filter (\<lambda>(r, v). \<not> prefix rel r) es)
          else walk_entries fn w1 root (filter (\<lambda>(r, v). \<not> prefix (butlast rel) r) es)
      | (Continue, w1) \<Rightarrow> walk_entries fn w1 root es)"
  by pat_completeness auto
termination
  by (relation "measure (\<lambda>(fn, w, root, es). length es)") (auto simp: less_Suc_eq_le)

definition Walk :: "fsys \<Rightarrow> string \<Rightarrow> WalkFunc \<Rightarrow> error option \<times> fsys" where
  "Walk w root fn =
     (case os_Stat w root of
        Inl e \<Rightarrow>
          (case fn w root (Inl e) of
             (Fail e1, w1) \<Rightarrow> (Some e1, w1)
           | (r, w1) \<Rightarrow> (None, w1))
      | Inr n \<Rightarrow> walk_entries fn w root (walk_listing w (resolve root)))"

section \<open>Copying the project files\<close>

definition excludeDirs :: "string list" where
  "excludeDirs =
     [''cli'', ''.git'', ''node_modules'', ''tmp'', ''storage'', ''cmd'', ''test-api'',
      ''.opencode'']"

definition excludeFiles :: "string list" where
  "excludeFiles =
     [''main'', ''server'', ''galaplate'', ''AGENTS.md'', ''CORE_EXTRACTION_PLAN.md'',
      ''IMPLEMENTATION_ROADMAP.md'', ''PHASE1_PROGRESS_REPORT.md'', ''WORKFLOW_EXAMPLE.md'']"

fun node_mode :: "node \<Rightarrow> mode" where
  "node_mode (Directory m) = m"
| "node_mode (File m c) = m"

text \<open>The function \<^verbatim>\<open>copyProjectFiles\<close> hands to the walk (lines 274 to 314). The name
  of an entry (\<^verbatim>\<open>info.Name()\<close>) is the last element of its path.\<close>

definition copy_visit :: "string \<Rightarrow> string \<Rightarrow> ProjectOptions \<Rightarrow> WalkFunc" where
  "copy_visit srcRoot destDir opts w path info =
     (case info of
        Inl e \<Rightarrow> (Fail e, w)
      | Inr n \<Rightarrow>
     (case Rel srcRoot path of
        Inl e \<Rightarrow> (Fail e, w)
      | Inr relPath \<Rightarrow>
     if relPath = ''.'' then (Continue, w)
     else
       let pathParts = Split SEP relPath in
       if (case pathParts of [] \<Rightarrow> False | p0 # ps \<Rightarrow> p0 \<in> set excludeDirs)
       then (if is_dir n then (SkipDir, w) else (Continue, w))
       else if Base path \<in> set excludeFiles then (Continue, w)
       else
         let destPath = Join [destDir, relPath] in
         if is_dir n then
           (case os_MkdirAll w destPath (node_mode n) of
              Inl e \<Rightarrow> (Fail e, w)
            | Inr w1 \<Rightarrow> (Continue, w1))
         else
           (case copyFile w path destPath opts of
              (Some e, w1) \<Rightarrow> (Fail e, w1)
            | (None, w1) \<Rightarrow> (Continue, w1))))"

definition copyProjectFiles ::
  "fsys \<Rightarrow> string \<Rightarrow> string \<Rightarrow> ProjectOptions \<Rightarrow> error option \<times> fsys" where
  "copyProjectFiles w srcRoot destDir opts = Walk w srcRoot (copy_visit srcRoot destDir opts)"

section \<open>Creating a project\<close>

text \<open>
  \<^verbatim>\<open>setupProject\<close> changes into the project directory and runs \<^verbatim>\<open>git\<close> (unless
  disabled) and \<^verbatim>\<open>go mod tidy\<close>; what these programs do to the files is given by the
  environment, and their failure is only a warning.
\<close>

definition setupProject :: "env \<Rightarrow> fsys \<Rightarrow> ProjectOptions \<Rightarrow> error option \<times> fsys" where
  "setupProject ev w opts =
     (case os_Stat w (Name opts) of
        Inr (Directory m) \<Rightarrow>
          (let w1 = (if \<not> NoGit opts then git_tool ev w else w)
           in (None, go_tool ev w1))
      | Inr (File m c) \<Rightarrow> (Some (FilesystemError ''ENOTDIR''), w)
      | Inl e \<Rightarrow> (Some e, w))"

text \<open>\<^verbatim>\<open>createProjectFromGitHub\<close>; the scratch directory is removed on every way out once
  the download has returned it.\<close>

definition createProjectFromGitHub ::
  "env \<Rightarrow> fsys \<Rightarrow> ProjectOptions \<Rightarrow> error option \<times> fsys" where
  "createProjectFromGitHub ev w opts =
     (case downloadGitHubRepo ev w ''galaplate'' ''galaplate'' ''main'' of
        (Inl e, w1) \<Rightarrow> (Some e, w1)
      | (Inr tempDir, w1) \<Rightarrow>
          (case
             (case os_MkdirAll w1 (Name opts) 0x1ED of
                Inl e \<Rightarrow> (Some e, w1)
              | Inr w2 \<Rightarrow>
                  (case copyProjectFiles w2 tempDir (Name opts) opts of
                     (Some e, w3) \<Rightarrow> (Some e, w3)
                   | (None, w3) \<Rightarrow> setupProject ev w3 opts))
           of (r, w4) \<Rightarrow> (r, os_RemoveAll w4 tempDir)))"

fun parse_flags :: "ProjectOptions \<Rightarrow> string list \<Rightarrow> ProjectOptions" where
  "parse_flags opts [] = opts"
| "parse_flags opts (arg # rest) =
     parse_flags
       (if HasPrefix arg ''--template='' then opts\<lparr>Template := TrimPrefix arg ''--template=''\<rparr>
        else if HasPrefix arg ''--db='' then opts\<lparr>DbType := TrimPrefix arg ''--db=''\<rparr>
        else if HasPrefix arg ''--module='' then opts\<lparr>Module := TrimPrefix arg ''--module=''\<rparr>
        else if arg = ''--no-git'' then opts\<lparr>NoGit := True\<rparr>
        else if arg = ''--force'' then opts\<lparr>Force := True\<rparr>
        else opts)
       rest"

text \<open>\<^verbatim>\<open>parseProjectArgs\<close> is called with a non-empty argument list only.\<close>

definition parseProjectArgs :: "string list \<Rightarrow> ProjectOptions" where
  "parseProjectArgs args =
     parse_flags
       \<lparr>Name = hd args, Template = ''api'', DbType = ''postgres'', Module = hd args,
        NoGit = False, Force = False\<rparr>
       (tl args)"

definition handleNewProject :: "env \<Rightarrow> fsys \<Rightarrow> string list \<Rightarrow> error option \<times> fsys" where
  "handleNewProject ev w args =
     (if args = [] then (Some ConfigError, w)
      else
        let opts = parseProjectArgs args in
        if (case os_Stat w (Name opts) of Inr n \<Rightarrow> True | Inl e \<Rightarrow> False) \<and> \<not> Force opts
        then (Some PreexistingDestinationError, w)
        else createProjectFromGitHub ev w opts)"

section \<open>Example inputs\<close>


definition example_opts :: ProjectOptions where
  "example_opts =
     \<lparr>Name = ''demo'', Template = ''api'', DbType = ''postgres'', Module = ''example.com/demo'',
      NoGit = False, Force = False\<rparr>"

text \<open>A scratch directory \<open>/tmp/g\<close> with a template, two Go files, a text file and a
  manifest, and an empty project directory \<open>demo\<close>; the umask is given.\<close>

definition example_fs :: "mode \<Rightarrow> fsys" where
  "example_fs um =
     \<lparr>entries =
        [((True, [''tmp'']), Directory 0x1FF),
         ((True, [''tmp'', ''g'']), Directory 0x1C0),
         ((True, [''tmp'', ''g'', ''main.go.template'']), File 0x1ED ''package {{PROJECT_NAME}}''),
         ((True, [''tmp'', ''g'', ''main.go'']), File 0x1ED ''package main''),
         ((True, [''tmp'', ''g'', ''LICENSE'']), File 0x124 ''MIT''),
         ((True, [''tmp'', ''g'', ''go.mod'']),
          File 0x1A4 (''module github.com/galaplate/galaplate'' @ [NL] @ ''go 1.22'')),
         ((True, [''tmp'', ''g'', ''app.go'']),
          File 0x1A4 (''import '' @ [DQ] @ ''github.com/galaplate/galaplate/sub/pkg'' @ [DQ])),
         ((False, [''demo'']), Directory 0x1ED)],
      umask = um\<rparr>"


section \<open>What an operation leaves alone\<close>

text \<open>The permission bits of the file a \<^verbatim>\<open>O_CREATE|O_TRUNC\<close> open leaves at a path:
  those of the file that was there, or the requested bits less the umask.\<close>

definition keep_or_new :: "fsys \<Rightarrow> path \<Rightarrow> mode \<Rightarrow> mode" where
  "keep_or_new w p perm =
     (case lookup w p of Some (File m c) \<Rightarrow> m | _ \<Rightarrow> new_mode w perm)"

text \<open>\<open>file_kept n n'\<close>: the entry is what it was, or it is a file with the same
  permission bits and another content.\<close>

fun file_kept :: "node \<Rightarrow> node \<Rightarrow> bool" where
  "file_kept (File m c) (File m1 c1) = (m1 = m)"
| "file_kept (Directory m) (Directory m1) = (m1 = m)"
| "file_kept n n1 = False"

text \<open>The paths \<^verbatim>\<open>copyFile\<close> opens for writing: the destination, and for a template
  also the destination without the suffix.\<close>

definition file_targets :: "string \<Rightarrow> string \<Rightarrow> path list" where
  "file_targets src dest =
     resolve dest #
     (if HasSuffix src ''.template'' then [resolve (TrimSuffix dest ''.template'')] else [])"

text \<open>The paths the copier opens for writing at one entry of the scratch tree, and over a
  whole listing.\<close>

definition visit_targets :: "string \<Rightarrow> string \<Rightarrow> string \<Rightarrow> node \<Rightarrow> path list" where
  "visit_targets srcRoot destDir path n =
     (case Rel srcRoot path of
        Inl e \<Rightarrow> []
      | Inr relPath \<Rightarrow>
          if relPath = ''.'' then []
          else if (case Split SEP relPath of [] \<Rightarrow> False | p0 # ps \<Rightarrow> p0 \<in> set excludeDirs)
          then []
          else if Base path \<in> set excludeFiles then []
          else if is_dir n then []
          else file_targets path (Join [destDir, relPath]))"

definition copy_targets ::
  "string \<Rightarrow> string \<Rightarrow> (string list \<times> node) list \<Rightarrow> path list" where
  "copy_targets srcRoot destDir es =
     concat (map (\<lambda>(rel, n). visit_targets srcRoot destDir (walk_path srcRoot rel) n) es)"

section \<open>The rewrite rules as the specification words them\<close>

text \<open>
  The specification names four rules, tried in a fixed order: the template-suffix rule,
  the manifest rule, the source-reference rule and the passthrough rule. \<open>spec_rule\<close> is
  the rule the specification gives a source name, \<open>rule_text\<close> the content that rule
  writes and \<open>rule_dest\<close> the path it writes to.
\<close>

datatype rule = TemplateSuffix | Manifest | SourceReference | Passthrough

definition spec_rule :: "string \<Rightarrow> rule" where
  "spec_rule src =
     (if HasSuffix src ''.template'' then TemplateSuffix
      else if Base src = ''go.mod'' then Manifest
      else if HasSuffix src ''.go'' then SourceReference
      else Passthrough)"

fun rule_text :: "rule \<Rightarrow> ProjectOptions \<Rightarrow> string \<Rightarrow> string" where
  "rule_text TemplateSuffix opts c = template_text opts c"
| "rule_text Manifest opts c = manifest_text opts c"
| "rule_text SourceReference opts c = replaceModuleReferences c (Module opts)"
| "rule_text Passthrough opts c = c"

fun rule_dest :: "rule \<Rightarrow> string \<Rightarrow> string" where
  "rule_dest TemplateSuffix dest = TrimSuffix dest ''.template''"
| "rule_dest r dest = dest"

text \<open>
  A template as a sequence of pieces: text without an opening brace, and the four
  markers. \<open>piece_text\<close> is what the template file holds for a piece and \<open>piece_value\<close>
  what the project file should hold for it.
\<close>

datatype piece =
    Text string
  | ProjectNameMarker
  | ModuleNameMarker
  | DbTypeMarker
  | CoreVersionMarker

definition markers :: "string list" where
  "markers =
     [''{{PROJECT_NAME}}'', ''{{MODULE_NAME}}'', ''{{DB_TYPE}}'', ''{{GALAPLATE_CORE_VERSION}}'']"

fun piece_text :: "piece \<Rightarrow> string" where
  "piece_text (Text t) = t"
| "piece_text ProjectNameMarker = ''{{PROJECT_NAME}}''"
| "piece_text ModuleNameMarker = ''{{MODULE_NAME}}''"
| "piece_text DbTypeMarker = ''{{DB_TYPE}}''"
| "piece_text CoreVersionMarker = ''{{GALAPLATE_CORE_VERSION}}''"

fun piece_value :: "ProjectOptions \<Rightarrow> piece \<Rightarrow> string" where
  "piece_value opts (Text t) = t"
| "piece_value opts ProjectNameMarker = Name opts"
| "piece_value opts ModuleNameMarker = Module opts"
| "piece_value opts DbTypeMarker = DbType opts"
| "piece_value opts CoreVersionMarker = ''v0.0.0''"

definition brace_free :: "string \<Rightarrow> bool" where
  "brace_free s = (CHR 0x7B \<notin> set s)"

fun plain_piece :: "piece \<Rightarrow> bool" where
  "plain_piece (Text t) = brace_free t"
| "plain_piece p = True"

text \<open>\<open>fill old v p\<close>: the piece \<open>p\<close> after the marker \<open>old\<close> has been replaced by \<open>v\<close>.\<close>

fun fill :: "string \<Rightarrow> string \<Rightarrow> piece \<Rightarrow> piece" where
  "fill old v (Text t) = Text t"
| "fill old v p = (if piece_text p = old then Text v else p)"


text \<open>An entry of the scratch tree, named by its path relative to the scratch root, is
  excluded when the first element of that path is the name of an excluded directory.\<close>

definition excluded :: "string list \<Rightarrow> bool" where
  "excluded rel = (rel \<noteq> [] \<and> hd rel \<in> set excludeDirs)"

section \<open>Replacing strings\<close>

lemmas eval_strings = replaceModuleReferences_def ReplaceAll_def re_match_at_def oldModule_def
  DQ_def extract_name_def is_name_char_def is_digit_char_def group_num_def Let_def

lemma replace_scan_split:
  "old \<noteq> [] \<Longrightarrow> c \<notin> set old \<Longrightarrow>
   replace_scan old new (a @ c # b) = replace_scan old new a @ c # replace_scan old new b"
proof (induction old new a rule: replace_scan.induct)
  case (1 old new)
  then have "\<not> prefix old (c # b)"
    by (cases old) auto
  then show ?case by simp
next
  case (2 old new x xs)
  show ?case
  proof (cases "prefix old (x # xs)")
    case True
    then have len: "length old \<le> Suc (length xs)"
      using prefix_length_le by fastforce
    from True have p2: "prefix old (x # xs @ c # b)"
      by (metis append_Cons prefix_prefix)
    have "drop (length old - 1) (xs @ c # b) = drop (length old - 1) xs @ c # b"
      using len by simp
    then show ?thesis
      using 2 True p2 by simp
  next
    case False
    have "\<not> prefix old (x # xs @ c # b)"
    proof
      assume p: "prefix old (x # xs @ c # b)"
      then have "prefix old ((x # xs) @ c # b)" by simp
      then have "prefix old (x # xs) \<or> (\<exists>us. old = (x # xs) @ us \<and> prefix us (c # b))"
        unfolding prefix_append by blast
      then show False
      proof
        assume "prefix old (x # xs)" with False show False by simp
      next
        assume "\<exists>us. old = (x # xs) @ us \<and> prefix us (c # b)"
        then obtain us where us: "old = (x # xs) @ us" "prefix us (c # b)" by blast
        with False have "us \<noteq> []" by auto
        with us(2) have "hd us = c" by (cases us) auto
        with \<open>us \<noteq> []\<close> us(1) have "c \<in> set old" by (cases us) auto
        with 2 show False by simp
      qed
    qed
    then show ?thesis using 2 False by simp
  qed
qed

lemma replace_scan_absent:
  "\<not> sublist old s \<Longrightarrow> replace_scan old new s = s"
  by (induction s) (auto simp: sublist_Cons_right)

lemma replace_scan_same: "new = old \<Longrightarrow> replace_scan old new s = s"
proof (induction old new s rule: replace_scan.induct)
  case (1 old new)
  then show ?case by simp
next
  case (2 old new c cs)
  show ?case
  proof (cases "old \<noteq> [] \<and> prefix old (c # cs)")
    case True
    then obtain zs where zs: "c # cs = old @ zs" by (auto simp: prefix_def)
    with True have d: "old @ drop (length old - 1) cs = c # cs"
      by (cases old) auto
    from 2 True have "replace_scan old new (drop (length old - 1) cs) = drop (length old - 1) cs"
      by simp
    with True d 2(3) show ?thesis by simp
  next
    case False
    with 2 show ?thesis by auto
  qed
qed

lemma ReplaceAll_Nil: "old \<noteq> [] \<Longrightarrow> ReplaceAll [] old new = []"
  by (simp add: ReplaceAll_def)

lemma ReplaceAll_split:
  "old \<noteq> [] \<Longrightarrow> c \<notin> set old \<Longrightarrow>
   ReplaceAll (a @ c # b) old new = ReplaceAll a old new @ c # ReplaceAll b old new"
  by (simp add: ReplaceAll_def replace_scan_split)

lemma ReplaceAll_absent:
  "\<not> sublist old s \<Longrightarrow> ReplaceAll s old new = s"
  by (auto simp: ReplaceAll_def replace_scan_absent)

lemma Split_nonempty: "Split c s \<noteq> []"
  by (induction s) (auto split: list.splits)

lemma Split_no_sep: "c \<notin> set a \<Longrightarrow> Split c a = [a]"
  by (induction a) auto

lemma Split_append_sep: "c \<notin> set a \<Longrightarrow> Split c (a @ c # b) = a # Split c b"
  by (induction a) auto

lemma Split_pieces: "l \<in> set (Split c s) \<Longrightarrow> c \<notin> set l"
  by (induction s arbitrary: l) (auto split: if_splits list.splits)

lemma Join_sep_Cons: "ls \<noteq> [] \<Longrightarrow> Join_sep c (l # ls) = l @ c # Join_sep c ls"
  by (cases ls) auto

lemma Join_sep_Split: "Join_sep c (Split c s) = s"
proof (induction s)
  case Nil
  then show ?case by simp
next
  case (Cons x xs)
  show ?case
  proof (cases "x = c")
    case True
    with Cons show ?thesis by (simp add: Join_sep_Cons Split_nonempty)
  next
    case False
    obtain w ws where sp: "Split c xs = w # ws"
      using Split_nonempty [of c xs] by (cases "Split c xs") auto
    with Cons have "Join_sep c (w # ws) = xs" by simp
    then have "Join_sep c ((x # w) # ws) = x # xs" by (cases ws) auto
    with False sp show ?thesis by simp
  qed
qed

lemma Split_Join_sep:
  "ls \<noteq> [] \<Longrightarrow> \<forall>l \<in> set ls. c \<notin> set l \<Longrightarrow> Split c (Join_sep c ls) = ls"
proof (induction ls rule: Join_sep.induct)
  case (1 c)
  then show ?case by simp
next
  case (2 c w)
  then show ?case by (simp add: Split_no_sep)
next
  case (3 c w v va)
  then show ?case by (simp add: Split_append_sep)
qed

lemma set_replace_scan: "set (replace_scan old new s) \<subseteq> set s \<union> set new"
proof (induction old new s rule: replace_scan.induct)
  case (1 old new)
  then show ?case by simp
next
  case (2 old new c cs)
  have "set (drop (length old - 1) cs) \<subseteq> set cs" by (rule set_drop_subset)
  with 2 show ?case by (auto split: if_splits)
qed

lemma replace_scan_Join_sep:
  "old \<noteq> [] \<Longrightarrow> c \<notin> set old \<Longrightarrow>
   replace_scan old new (Join_sep c ls) = Join_sep c (map (replace_scan old new) ls)"
  by (induction ls rule: Join_sep.induct) (simp_all add: replace_scan_split)

lemma Split_replace_scan:
  assumes "old \<noteq> []" "c \<notin> set old" "c \<notin> set new"
  shows "Split c (replace_scan old new s) = map (replace_scan old new) (Split c s)"
proof -
  have "replace_scan old new s = replace_scan old new (Join_sep c (Split c s))"
    by (simp add: Join_sep_Split)
  also have "\<dots> = Join_sep c (map (replace_scan old new) (Split c s))"
    using assms by (simp add: replace_scan_Join_sep)
  finally have "Split c (replace_scan old new s)
      = Split c (Join_sep c (map (replace_scan old new) (Split c s)))" by simp
  also have "\<dots> = map (replace_scan old new) (Split c s)"
  proof (rule Split_Join_sep)
    show "map (replace_scan old new) (Split c s) \<noteq> []" by (simp add: Split_nonempty)
    show "\<forall>l\<in>set (map (replace_scan old new) (Split c s)). c \<notin> set l"
      using set_replace_scan [of old new] Split_pieces [of _ c s] assms(3) by fastforce
  qed
  finally show ?thesis .
qed

lemma Split_ReplaceAll:
  assumes "old \<noteq> []" "c \<notin> set old" "c \<notin> set new"
  shows "Split c (ReplaceAll s old new) = map (\<lambda>l. ReplaceAll l old new) (Split c s)"
proof (cases "old = new")
  case True
  then show ?thesis by (simp add: ReplaceAll_def)
next
  case False
  with assms show ?thesis by (simp add: ReplaceAll_def Split_replace_scan)
qed

lemma ReplaceAll_self: "old \<noteq> [] \<Longrightarrow> ReplaceAll old old new = new"
proof -
  assume o: "old \<noteq> []"
  then obtain x xs where "old = x # xs" by (cases old) auto
  then have "replace_scan old new old = new" by simp
  then show ?thesis using o by (auto simp: ReplaceAll_def)
qed

section \<open>Module references in Go files\<close>

lemma re_match_at_no_quote: "c \<noteq> DQ \<Longrightarrow> re_match_at (c # s) = None"
  by (simp add: re_match_at_def)

lemma re_ReplaceAllString_no_quote:
  "DQ \<notin> set pre \<Longrightarrow> re_ReplaceAllString (pre @ s) repl = pre @ re_ReplaceAllString s repl"
  by (induction pre) (auto simp: re_match_at_no_quote)

lemma re_match_at_literal:
  assumes "DQ \<notin> set suf"
  shows "re_match_at (DQ # oldModule @ suf @ DQ # post) = Some (suf, post)"
proof -
  have t: "takeWhile (\<lambda>c. c \<noteq> DQ) (suf @ DQ # post) = suf"
    using assms by (subst takeWhile_append2) auto
  have d: "dropWhile (\<lambda>c. c \<noteq> DQ) (suf @ DQ # post) = DQ # post"
    using assms by (subst dropWhile_append2) auto
  show ?thesis
    unfolding re_match_at_def by (simp add: t d)
qed

lemma expand_no_dollar:
  "CHR ''$'' \<notin> set xs \<Longrightarrow> expand (xs @ t) groups = xs @ expand t groups"
  by (induction xs) auto

lemma expand_group1: "expand [CHR ''$'', CHR ''1'', DQ] [w, g] = g @ [DQ]"
  by (simp add: extract_name_def is_name_char_def DQ_def group_num_def is_digit_char_def Let_def)

lemma expand_template:
  assumes "CHR ''$'' \<notin> set newModule"
  shows "expand (DQ # newModule @ [CHR ''$'', CHR ''1'', DQ]) [w, g] = DQ # newModule @ g @ [DQ]"
proof -
  have "expand ((DQ # newModule) @ [CHR ''$'', CHR ''1'', DQ]) [w, g]
      = (DQ # newModule) @ expand [CHR ''$'', CHR ''1'', DQ] [w, g]"
    by (rule expand_no_dollar) (use assms in \<open>simp add: DQ_def\<close>)
  then show ?thesis by (simp only: expand_group1) simp
qed

lemma DQ_notin_oldModule: "DQ \<notin> set oldModule"
  by (simp add: oldModule_def DQ_def)

lemma oldModule_nonempty: "oldModule \<noteq> []"
  by (simp add: oldModule_def)

lemma re_ReplaceAllString_literal:
  assumes "CHR ''$'' \<notin> set newModule" "DQ \<notin> set pre" "DQ \<notin> set suf"
  shows "re_ReplaceAllString (pre @ DQ # oldModule @ suf @ DQ # post)
           (DQ # newModule @ [CHR ''$'', CHR ''1'', DQ])
       = pre @ DQ # newModule @ suf @ DQ
           # re_ReplaceAllString post (DQ # newModule @ [CHR ''$'', CHR ''1'', DQ])"
  using assms
  by (simp add: re_ReplaceAllString_no_quote re_match_at_literal expand_template del: expand.simps)

lemma sub_pkg_no_straddle:
  assumes "\<not> sublist oldModule newModule"
  shows "\<not> sublist oldModule (newModule @ ''/sub/pkg'')"
proof
  assume "sublist oldModule (newModule @ ''/sub/pkg'')"
  then consider "sublist oldModule newModule" | "sublist oldModule ''/sub/pkg''"
    | xs1 xs2 where "oldModule = xs1 @ xs2" "suffix xs1 newModule" "prefix xs2 ''/sub/pkg''"
    unfolding sublist_append by blast
  then show False
  proof cases
    case 1 with assms show False by simp
  next
    case 2
    then have "length oldModule \<le> length ''/sub/pkg''" by (rule sublist_length_le)
    then show False by (simp add: oldModule_def)
  next
    case 3
    show False
    proof (cases "xs2 = []")
      case True
      with 3 have "suffix oldModule newModule" by simp
      then have "sublist oldModule newModule" by (rule suffix_imp_sublist)
      with assms show False by simp
    next
      case False
      then have "last (xs1 @ xs2) = last xs2" by (rule last_appendR)
      with 3(1) have "last xs2 = last oldModule" by simp
      then have l: "last xs2 = CHR ''e''" by (simp add: oldModule_def)
      from 3(3) have "set xs2 \<subseteq> set ''/sub/pkg''" by (rule set_mono_prefix)
      moreover from False have "last xs2 \<in> set xs2" by simp
      ultimately have "CHR ''e'' \<in> set ''/sub/pkg''" using l by auto
      then show False by simp
    qed
  qed
qed

lemma replaceModuleReferences_Nil: "replaceModuleReferences [] newModule = []"
  by (simp add: replaceModuleReferences_def ReplaceAll_Nil oldModule_nonempty)

lemma replaceModuleReferences_literal:
  assumes "CHR ''$'' \<notin> set newModule" "DQ \<notin> set pre" "DQ \<notin> set suf"
    and "\<not> sublist oldModule (newModule @ suf)"
  shows "replaceModuleReferences (pre @ DQ # oldModule @ suf @ DQ # post) newModule
      = ReplaceAll pre oldModule newModule @ DQ # newModule @ suf @ DQ
          # replaceModuleReferences post newModule"
proof -
  let ?repl = "DQ # newModule @ [CHR ''$'', CHR ''1'', DQ]"
  have "replaceModuleReferences (pre @ DQ # oldModule @ suf @ DQ # post) newModule
      = ReplaceAll (pre @ DQ # ((newModule @ suf) @ DQ # re_ReplaceAllString post ?repl))
          oldModule newModule"
    using assms(1-3) by (simp add: replaceModuleReferences_def re_ReplaceAllString_literal)
  also have "\<dots> = ReplaceAll pre oldModule newModule @ DQ
      # ReplaceAll ((newModule @ suf) @ DQ # re_ReplaceAllString post ?repl) oldModule newModule"
    by (rule ReplaceAll_split [OF oldModule_nonempty DQ_notin_oldModule])
  also have "ReplaceAll ((newModule @ suf) @ DQ # re_ReplaceAllString post ?repl) oldModule newModule
      = ReplaceAll (newModule @ suf) oldModule newModule @ DQ
          # ReplaceAll (re_ReplaceAllString post ?repl) oldModule newModule"
    by (rule ReplaceAll_split [OF oldModule_nonempty DQ_notin_oldModule])
  also have "ReplaceAll (newModule @ suf) oldModule newModule = newModule @ suf"
    using assms(4) by (rule ReplaceAll_absent)
  finally show ?thesis
    by (simp add: replaceModuleReferences_def)
qed

text \<open>
  Where the two passes give what is expected. In a Go file a quoted literal that starts
  with the old module root, with no quote before it in the text considered, is rewritten
  to the new module identifier followed by the same path suffix, provided the new
  identifier contains no dollar sign (the replacement template would read it as a group
  reference) and the old root does not occur in the new identifier followed by the suffix.
  The text before the literal has every occurrence of the old root replaced, and the text
  behind it is rewritten in the same way. A text without any quote has every occurrence
  of the old root replaced.
\<close>

lemma replaceModuleReferences_import_literal:
  "(CHR ''$'' \<notin> set newModule \<and> DQ \<notin> set pre \<and> DQ \<notin> set suf
      \<and> \<not> sublist oldModule (newModule @ suf) \<longrightarrow>
    replaceModuleReferences (pre @ DQ # oldModule @ suf @ DQ # post) newModule
      = ReplaceAll pre oldModule newModule @ DQ # newModule @ suf @ DQ
          # replaceModuleReferences post newModule)
   \<and> (CHR ''$'' \<notin> set newModule \<and> \<not> sublist oldModule newModule \<longrightarrow>
    replaceModuleReferences (DQ # oldModule @ ''/sub/pkg'' @ [DQ]) newModule
      = DQ # newModule @ ''/sub/pkg'' @ [DQ])
   \<and> (DQ \<notin> set content \<longrightarrow>
    replaceModuleReferences content newModule = ReplaceAll content oldModule newModule)"
proof (intro conjI impI)
  assume a: "CHR ''$'' \<notin> set newModule \<and> DQ \<notin> set pre \<and> DQ \<notin> set suf
      \<and> \<not> sublist oldModule (newModule @ suf)"
  then show "replaceModuleReferences (pre @ DQ # oldModule @ suf @ DQ # post) newModule
      = ReplaceAll pre oldModule newModule @ DQ # newModule @ suf @ DQ
          # replaceModuleReferences post newModule"
    by (simp add: replaceModuleReferences_literal)
next
  assume a: "CHR ''$'' \<notin> set newModule \<and> \<not> sublist oldModule newModule"
  then have ns: "\<not> sublist oldModule (newModule @ ''/sub/pkg'')"
    by (simp add: sub_pkg_no_straddle)
  have "replaceModuleReferences ([] @ DQ # oldModule @ ''/sub/pkg'' @ DQ # []) newModule
      = ReplaceAll [] oldModule newModule @ DQ # newModule @ ''/sub/pkg'' @ DQ
          # replaceModuleReferences [] newModule"
    by (rule replaceModuleReferences_literal) (use a ns in \<open>simp_all add: DQ_def\<close>)
  then show "replaceModuleReferences (DQ # oldModule @ ''/sub/pkg'' @ [DQ]) newModule
      = DQ # newModule @ ''/sub/pkg'' @ [DQ]"
    by (simp add: replaceModuleReferences_Nil ReplaceAll_Nil oldModule_nonempty)
next
  assume "DQ \<notin> set content"
  then have "re_ReplaceAllString (content @ []) (DQ # newModule @ [CHR ''$'', CHR ''1'', DQ])
     = content @ re_ReplaceAllString [] (DQ # newModule @ [CHR ''$'', CHR ''1'', DQ])"
    by (rule re_ReplaceAllString_no_quote)
  then show "replaceModuleReferences content newModule = ReplaceAll content oldModule newModule"
    by (simp add: replaceModuleReferences_def)
qed

lemma replaceModuleReferences_import_literal_example:
  "replaceModuleReferences (''import '' @ DQ # oldModule @ ''/sub/pkg'' @ DQ # ''; x'')
       ''github.com/new/new''
      = ''import '' @ DQ # ''github.com/new/new'' @ ''/sub/pkg'' @ DQ # ''; x''
   \<and> replaceModuleReferences (DQ # oldModule @ ''/sub/pkg'' @ [DQ]) ''github.com/new/new''
      = DQ # ''github.com/new/new'' @ ''/sub/pkg'' @ [DQ]
   \<and> replaceModuleReferences (''// see '' @ oldModule) ''github.com/new/new''
      = ''// see github.com/new/new''"
proof -
  have h1: "CHR ''$'' \<notin> set ''github.com/new/new'' \<and> DQ \<notin> set ''import ''
      \<and> DQ \<notin> set ''/sub/pkg''
      \<and> \<not> sublist oldModule (''github.com/new/new'' @ ''/sub/pkg'')"
    by (simp add: DQ_def oldModule_def sublist_code)
  have h2: "CHR ''$'' \<notin> set ''github.com/new/new'' \<and> \<not> sublist oldModule ''github.com/new/new''"
    by (simp add: oldModule_def sublist_code)
  have h3: "DQ \<notin> set (''// see '' @ oldModule)"
    by (simp add: DQ_def oldModule_def)
  have r1: "ReplaceAll ''import '' oldModule ''github.com/new/new'' = ''import ''"
    by (simp add: ReplaceAll_def oldModule_def)
  have r2: "replaceModuleReferences ''; x'' ''github.com/new/new'' = ''; x''"
    by (simp add: eval_strings)
  have r3: "ReplaceAll (''// see '' @ oldModule) oldModule ''github.com/new/new''
      = ''// see github.com/new/new''"
    by (simp add: eval_strings)
  note t = replaceModuleReferences_import_literal
      [of "''github.com/new/new''" "''import ''" "''/sub/pkg''" "''; x''" "''// see '' @ oldModule"]
  from t h1 have c1: "replaceModuleReferences
        (''import '' @ DQ # oldModule @ ''/sub/pkg'' @ DQ # ''; x'') ''github.com/new/new''
      = ReplaceAll ''import '' oldModule ''github.com/new/new'' @ DQ # ''github.com/new/new''
          @ ''/sub/pkg'' @ DQ # replaceModuleReferences ''; x'' ''github.com/new/new''"
    by blast
  from t h2 have c2: "replaceModuleReferences (DQ # oldModule @ ''/sub/pkg'' @ [DQ])
        ''github.com/new/new''
      = DQ # ''github.com/new/new'' @ ''/sub/pkg'' @ [DQ]"
    by blast
  from t h3 have c3: "replaceModuleReferences (''// see '' @ oldModule) ''github.com/new/new''
      = ReplaceAll (''// see '' @ oldModule) oldModule ''github.com/new/new''"
    by blast
  show ?thesis
    unfolding c1 c2 c3 r1 r2 r3 by (rule conjI refl)+
qed

text \<open>
  Claim C6 does not hold of the code when the new module identifier contains the old
  module root. The first pass writes the new identifier into the literal; the catch-all
  pass then runs over the whole result, the literal included, and replaces the old root
  inside the identifier just written. With the new identifier
  \<open>github.com/galaplate/galaplate2\<close> the literal of the old root followed by \<open>/sub/pkg\<close>
  becomes \<open>github.com/galaplate/galaplate22/sub/pkg\<close> inside the quotes, and not the new
  identifier followed by \<open>/sub/pkg\<close>.
\<close>

theorem replaceModuleReferences_rewrites_new_identifier:
  "replaceModuleReferences (DQ # oldModule @ ''/sub/pkg'' @ [DQ]) ''github.com/galaplate/galaplate2''
     = DQ # ''github.com/galaplate/galaplate22/sub/pkg'' @ [DQ]
   \<and> replaceModuleReferences (DQ # oldModule @ ''/sub/pkg'' @ [DQ]) ''github.com/galaplate/galaplate2''
     \<noteq> DQ # ''github.com/galaplate/galaplate2'' @ ''/sub/pkg'' @ [DQ]"
  by (simp add: eval_strings)

section \<open>The module line of \<^verbatim>\<open>go.mod\<close>\<close>

text \<open>
  Claim C3, as the code has it. The rewriting of \<^verbatim>\<open>go.mod\<close> is a replacement of the text
  \<open>module github.com/galaplate/galaplate\<close> wherever it occurs, not of one line. When the new
  module identifier contains no line feed, the output has as many lines as the input, each
  output line is the input line with that text replaced, a line that does not contain the
  text is unchanged, and the line that is exactly the declaration of the default module
  root becomes the declaration of the new module identifier.
\<close>

theorem manifest_text_lines:
  "NL \<notin> set (Module opts) \<longrightarrow>
     length (Split NL (manifest_text opts content)) = length (Split NL content)
     \<and> (\<forall>i < length (Split NL content).
          Split NL (manifest_text opts content) ! i
            = ReplaceAll (Split NL content ! i) (''module '' @ oldModule) (''module '' @ Module opts)
          \<and> (\<not> sublist (''module '' @ oldModule) (Split NL content ! i) \<longrightarrow>
               Split NL (manifest_text opts content) ! i = Split NL content ! i)
          \<and> (Split NL content ! i = ''module '' @ oldModule \<longrightarrow>
               Split NL (manifest_text opts content) ! i = ''module '' @ Module opts))"
proof
  assume nl: "NL \<notin> set (Module opts)"
  have a: "''module '' @ oldModule \<noteq> []" by simp
  have b: "NL \<notin> set (''module '' @ oldModule)" by (simp add: NL_def oldModule_def)
  have c: "NL \<notin> set (''module '' @ Module opts)" using nl by (simp add: NL_def)
  have sp: "Split NL (manifest_text opts content)
      = map (\<lambda>l. ReplaceAll l (''module '' @ oldModule) (''module '' @ Module opts)) (Split NL content)"
    unfolding manifest_text_def by (rule Split_ReplaceAll [OF a b c])
  show "length (Split NL (manifest_text opts content)) = length (Split NL content)
     \<and> (\<forall>i < length (Split NL content).
          Split NL (manifest_text opts content) ! i
            = ReplaceAll (Split NL content ! i) (''module '' @ oldModule) (''module '' @ Module opts)
          \<and> (\<not> sublist (''module '' @ oldModule) (Split NL content ! i) \<longrightarrow>
               Split NL (manifest_text opts content) ! i = Split NL content ! i)
          \<and> (Split NL content ! i = ''module '' @ oldModule \<longrightarrow>
               Split NL (manifest_text opts content) ! i = ''module '' @ Module opts))"
    unfolding sp using ReplaceAll_self [OF a] by (simp add: ReplaceAll_absent)
qed

theorem manifest_text_lines_witness:
  "Split NL (manifest_text
       \<lparr>Name = ''demo'', Template = ''api'', DbType = ''postgres'', Module = ''example.com/demo'',
        NoGit = False, Force = False\<rparr>
       (''module github.com/galaplate/galaplate'' @ [NL] @ ''go 1.22'' @ [NL])) ! 0
     = ''module example.com/demo''
   \<and> Split NL (manifest_text
       \<lparr>Name = ''demo'', Template = ''api'', DbType = ''postgres'', Module = ''example.com/demo'',
        NoGit = False, Force = False\<rparr>
       (''module github.com/galaplate/galaplate'' @ [NL] @ ''go 1.22'' @ [NL])) ! 1
     = ''go 1.22''"
proof -
  let ?opts = "\<lparr>Name = ''demo'', Template = ''api'', DbType = ''postgres'',
    Module = ''example.com/demo'', NoGit = False, Force = False\<rparr>"
  let ?c = "''module github.com/galaplate/galaplate'' @ [NL] @ ''go 1.22'' @ [NL]"
  have sp: "Split NL ?c = [''module github.com/galaplate/galaplate'', ''go 1.22'', []]"
    by (simp add: NL_def)
  have h: "NL \<notin> set (Module ?opts)" by (simp add: NL_def)
  let ?ls = "[''module github.com/galaplate/galaplate'', ''go 1.22'', []]"
  have l0: "0 < length ?ls" and l1: "1 < length ?ls" by simp_all
  have p0: "?ls ! 0 = ''module '' @ oldModule" by (simp add: oldModule_def)
  have p1: "\<not> sublist (''module '' @ oldModule) (?ls ! 1)"
    by (simp add: oldModule_def sublist_code)
  note t = manifest_text_lines [of ?opts ?c, THEN mp, OF h, THEN conjunct2, unfolded sp]
  from t [rule_format, OF l0] p0
  have r0: "Split NL (manifest_text ?opts ?c) ! 0 = ''module '' @ Module ?opts"
    by blast
  from t [rule_format, OF l1] p1
  have r1: "Split NL (manifest_text ?opts ?c) ! 1 = ?ls ! 1"
    by blast
  show ?thesis
    unfolding r0 r1 by simp
qed

text \<open>
  Claim C3 as stated fails: a line that is not the module declaration but contains its
  text, here a comment, is rewritten too.
\<close>

theorem manifest_text_counterexample:
  "Split NL (''module github.com/galaplate/galaplate'' @ [NL]
       @ ''// module github.com/galaplate/galaplate'') ! 1
     \<noteq> ''module github.com/galaplate/galaplate''
   \<and> Split NL (manifest_text
       \<lparr>Name = ''demo'', Template = ''api'', DbType = ''postgres'', Module = ''example.com/demo'',
        NoGit = False, Force = False\<rparr>
       (''module github.com/galaplate/galaplate'' @ [NL]
          @ ''// module github.com/galaplate/galaplate'')) ! 1
     = ''// module example.com/demo''
   \<and> Split NL (''module github.com/galaplate/galaplate'' @ [NL]
       @ ''// module github.com/galaplate/galaplate'') ! 1
     = ''// module github.com/galaplate/galaplate''"
  by (simp add: manifest_text_def eval_strings NL_def)

section \<open>Cleaning and joining paths\<close>

lemma Split_append_sep_gen: "Split c (a @ c # b) = Split c a @ Split c b"
proof (induction a)
  case Nil
  then show ?case by simp
next
  case (Cons x xs)
  obtain w ws where sp: "Split c xs = w # ws"
    using Split_nonempty [of c xs] by (cases "Split c xs") auto
  with Cons show ?case by (auto split: list.splits)
qed

lemma clean_elems_append:
  "clean_elems r (xs @ ys) out = clean_elems r ys (clean_elems r xs out)"
  by (induction r xs out rule: clean_elems.induct) auto

lemma clean_elems_plain: "list_all plain xs \<Longrightarrow> clean_elems r xs out = out @ xs"
  by (induction xs arbitrary: out) (auto simp: plain_def)

lemma clean_elems_dotdots:
  "list_all (\<lambda>e. e = ''..'') out \<Longrightarrow>
   clean_elems False (replicate k ''..'') out = out @ replicate k ''..''"
proof (induction k arbitrary: out)
  case 0
  then show ?case by simp
next
  case (Suc k)
  have nl: "out = [] \<or> last out = ''..''"
  proof (cases "out = []")
    case True
    then show ?thesis by simp
  next
    case False
    then have "last out \<in> set out" by simp
    with Suc.prems show ?thesis by (simp add: list_all_iff)
  qed
  have "clean_elems False (''..'' # replicate k ''..'') out
      = clean_elems False (replicate k ''..'') (out @ [''..''])"
    using nl by auto
  also have "\<dots> = (out @ [''..'']) @ replicate k ''..''"
    by (rule Suc.IH) (use Suc.prems in simp)
  finally show ?case by simp
qed

lemma dropWhile_takeWhile_dotdots:
  "takeWhile (\<lambda>e. e = ''..'') xs = replicate (length (takeWhile (\<lambda>e. e = ''..'') xs)) ''..''"
  by (induction xs) auto

lemma dropWhile_dotdots_plain:
  "list_all plain ys \<Longrightarrow> dropWhile (\<lambda>e. e = ''..'') (replicate k ''..'' @ ys) = ys"
proof (induction k)
  case 0
  then show ?case by (cases ys) (auto simp: plain_def)
next
  case (Suc k)
  then show ?case by simp
qed

lemma normal_elems_iff:
  "normal_elems r xs \<longleftrightarrow>
     (\<exists>k ys. xs = replicate k ''..'' @ ys \<and> list_all plain ys \<and> (r \<longrightarrow> k = 0))"
proof
  assume n: "normal_elems r xs"
  let ?d = "takeWhile (\<lambda>e. e = ''..'') xs"
  let ?p = "dropWhile (\<lambda>e. e = ''..'') xs"
  have xs: "xs = replicate (length ?d) ''..'' @ ?p"
    using dropWhile_takeWhile_dotdots [of xs] by (metis takeWhile_dropWhile_id)
  have p: "list_all plain ?p" using n by (simp add: normal_elems_def)
  have "r \<longrightarrow> length ?d = 0"
  proof
    assume r
    with n have "list_all plain xs" by (simp add: normal_elems_def)
    then have "?d = []" by (cases xs) (auto simp: plain_def)
    then show "length ?d = 0" by simp
  qed
  with xs p show "\<exists>k ys. xs = replicate k ''..'' @ ys \<and> list_all plain ys \<and> (r \<longrightarrow> k = 0)"
    by blast
next
  assume "\<exists>k ys. xs = replicate k ''..'' @ ys \<and> list_all plain ys \<and> (r \<longrightarrow> k = 0)"
  then obtain k ys where k: "xs = replicate k ''..'' @ ys" "list_all plain ys" "r \<longrightarrow> k = 0"
    by blast
  then show "normal_elems r xs"
    by (auto simp: normal_elems_def dropWhile_dotdots_plain)
qed

lemma normal_elems_snoc_plain:
  assumes "normal_elems r out" "plain e"
  shows "normal_elems r (out @ [e])"
proof -
  from assms(1) obtain k ys where k: "out = replicate k ''..'' @ ys" "list_all plain ys" "r \<longrightarrow> k = 0"
    unfolding normal_elems_iff by blast
  then have "out @ [e] = replicate k ''..'' @ (ys @ [e])" "list_all plain (ys @ [e])"
    using assms(2) by simp_all
  with k(3) show ?thesis unfolding normal_elems_iff by blast
qed

lemma normal_elems_butlast:
  assumes "normal_elems r out"
  shows "normal_elems r (butlast out)"
proof -
  from assms obtain k ys where k: "out = replicate k ''..'' @ ys" "list_all plain ys" "r \<longrightarrow> k = 0"
    unfolding normal_elems_iff by blast
  show ?thesis
  proof (cases "ys = []")
    case True
    have bl: "butlast (replicate (Suc n) ''..'') = replicate n ''..''" for n
    proof -
      have "replicate (Suc n) ''..'' = replicate n ''..'' @ [''..'']"
        by (simp add: replicate_append_same)
      then show ?thesis by (simp only: butlast_snoc)
    qed
    from True k have "butlast out = replicate (k - 1) ''..'' @ []"
      by (cases k) (simp_all add: bl del: replicate_Suc)
    moreover have "list_all plain []" by simp
    moreover from k(3) have "r \<longrightarrow> k - 1 = 0" by simp
    ultimately show ?thesis unfolding normal_elems_iff by blast
  next
    case False
    with k have "butlast out = replicate k ''..'' @ butlast ys" "list_all plain (butlast ys)"
      by (auto simp: butlast_append list_all_iff dest: in_set_butlastD)
    with k(3) show ?thesis unfolding normal_elems_iff by blast
  qed
qed

lemma normal_elems_snoc_dotdot:
  assumes "normal_elems False out" "out = [] \<or> last out = ''..''"
  shows "normal_elems False (out @ [''..''])"
proof -
  from assms(1) obtain k ys where k: "out = replicate k ''..'' @ ys" "list_all plain ys"
    unfolding normal_elems_iff by blast
  have "ys = []"
  proof (rule ccontr)
    assume ne: "ys \<noteq> []"
    with k have "last out = last ys" by simp
    moreover from ne k(2) have "plain (last ys)" by (simp add: list_all_iff)
    moreover from ne k have "out \<noteq> []" by simp
    ultimately show False using assms(2) by (simp add: plain_def)
  qed
  with k have "out @ [''..''] = replicate (Suc k) ''..'' @ []"
    by (simp add: replicate_append_same)
  moreover have "False \<longrightarrow> Suc k = 0" by simp
  moreover have "list_all plain []" by simp
  ultimately show ?thesis unfolding normal_elems_iff by blast
qed

lemma clean_elems_keeps_normal:
  "normal_elems r out \<Longrightarrow> \<forall>e \<in> set xs. SEP \<notin> set e \<Longrightarrow> normal_elems r (clean_elems r xs out)"
proof (induction xs arbitrary: out)
  case Nil
  then show ?case by simp
next
  case (Cons e es)
  have sf: "\<forall>e \<in> set es. SEP \<notin> set e" using Cons.prems(2) by simp
  consider (skip) "e = [] \<or> e = ''.''"
    | (pop) "e = ''..''" "out \<noteq> []" "last out \<noteq> ''..''"
    | (push) "e = ''..''" "out = [] \<or> last out = ''..''" "\<not> r"
    | (root) "e = ''..''" "out = [] \<or> last out = ''..''" "r"
    | (name) "e \<noteq> []" "e \<noteq> ''.''" "e \<noteq> ''..''"
    by blast
  then show ?case
  proof cases
    case skip
    then have "clean_elems r (e # es) out = clean_elems r es out" by auto
    with Cons.IH [OF Cons.prems(1) sf] show ?thesis by simp
  next
    case pop
    then have "clean_elems r (e # es) out = clean_elems r es (butlast out)" by simp
    with Cons.IH [OF normal_elems_butlast [OF Cons.prems(1)] sf] show ?thesis by simp
  next
    case push
    then have c: "clean_elems r (e # es) out = clean_elems r es (out @ [''..''])" by auto
    from push Cons.prems(1) have "normal_elems r (out @ [''..''])"
      using normal_elems_snoc_dotdot [of out] by simp
    from Cons.IH [OF this sf] c show ?thesis by simp
  next
    case root
    then have "clean_elems r (e # es) out = clean_elems r es out" by auto
    with Cons.IH [OF Cons.prems(1) sf] show ?thesis by simp
  next
    case name
    then have c: "clean_elems r (e # es) out = clean_elems r es (out @ [e])" by simp
    from name Cons.prems(2) have "plain e" by (simp add: plain_def)
    from Cons.IH [OF normal_elems_snoc_plain [OF Cons.prems(1) this] sf] c show ?thesis by simp
  qed
qed

lemma clean_elems_normal:
  assumes "normal_elems r xs"
  shows "clean_elems r xs [] = xs"
proof -
  from assms obtain k ys where k: "xs = replicate k ''..'' @ ys" "list_all plain ys" "r \<longrightarrow> k = 0"
    unfolding normal_elems_iff by blast
  show ?thesis
  proof (cases r)
    case True
    with k show ?thesis by (simp add: clean_elems_plain)
  next
    case False
    have "clean_elems False (replicate k ''..'' @ ys) []
        = clean_elems False ys (clean_elems False (replicate k ''..'') [])"
      by (rule clean_elems_append)
    also have "clean_elems False (replicate k ''..'') [] = replicate k ''..''"
      using clean_elems_dotdots [of "[]"] by simp
    finally show ?thesis using k False by (simp add: clean_elems_plain)
  qed
qed

lemma normal_elems_Nil: "normal_elems r []"
  by (simp add: normal_elems_def)

lemma normal_resolve: "normal_elems (fst (resolve x)) (snd (resolve x))"
proof -
  have "\<forall>e \<in> set (Split SEP x). SEP \<notin> set e" using Split_pieces by blast
  from clean_elems_keeps_normal [OF normal_elems_Nil this]
  show ?thesis by (simp add: resolve_def Let_def)
qed

lemma normal_elem_cases:
  assumes "normal_elems r xs" "e \<in> set xs"
  shows "e = ''..'' \<or> plain e"
proof -
  from assms(1) obtain k ys where k: "xs = replicate k ''..'' @ ys" "list_all plain ys"
    unfolding normal_elems_iff by blast
  with assms(2) show ?thesis by (auto simp: list_all_iff)
qed

lemma normal_sep_free: "normal_elems r xs \<Longrightarrow> e \<in> set xs \<Longrightarrow> SEP \<notin> set e"
  using normal_elem_cases [of r xs e] by (auto simp: plain_def SEP_def)

lemma normal_not_empty: "normal_elems r xs \<Longrightarrow> e \<in> set xs \<Longrightarrow> e \<noteq> []"
  using normal_elem_cases [of r xs e] by (auto simp: plain_def)

lemma Join_sep_Cons_if:
  "Join_sep c (x # xs) = x @ (if xs = [] then [] else c # Join_sep c xs)"
  by (cases xs) auto
lemma resolve_render:
  assumes "normal_elems (fst p) (snd p)"
  shows "resolve (render p) = p"
proof -
  obtain r xs where p: "p = (r, xs)" by (cases p)
  with assms have n: "normal_elems r xs" by simp
  have sf: "\<forall>e \<in> set xs. SEP \<notin> set e" using n normal_sep_free by blast
  have cl: "clean_elems r xs [] = xs" using n by (rule clean_elems_normal)
  show ?thesis
  proof (cases "xs = []")
    case True
    with p show ?thesis
      by (cases r) (simp_all add: render_def resolve_def SEP_def)
  next
    case False
    then have sp: "Split SEP (Join_sep SEP xs) = xs"
      using sf by (rule Split_Join_sep)
    obtain x xs' where xs: "xs = x # xs'" using False by (cases xs) auto
    then have x: "x \<noteq> []" "SEP \<notin> set x"
      using n normal_not_empty [of r xs x] sf by auto
    then have hd: "hd (Join_sep SEP xs) \<noteq> SEP" "Join_sep SEP xs \<noteq> []"
      unfolding xs Join_sep_Cons_if by (cases x; auto)+
    show ?thesis
    proof (cases r)
      case True
      with p False sp cl show ?thesis
        by (simp add: render_def resolve_def)
    next
      case False
      with p \<open>xs \<noteq> []\<close> sp cl hd show ?thesis
        by (simp add: render_def resolve_def)
    qed
  qed
qed
lemma Clean_render: "Clean x = render (resolve x)"
  by (simp add: Clean_def resolve_def render_def Let_def)
lemma resolve_Clean: "resolve (Clean x) = resolve x"
  unfolding Clean_render by (rule resolve_render) (rule normal_resolve)
lemma resolve_append_sep:
  "a \<noteq> [] \<Longrightarrow>
   resolve (a @ SEP # b)
     = (fst (resolve a), clean_elems (fst (resolve a)) (Split SEP b) (snd (resolve a)))"
  by (simp add: resolve_def Let_def Split_append_sep_gen clean_elems_append)
lemma resolve_Join2:
  assumes "a \<noteq> []"
  shows "resolve (Join [a, b])
     = (fst (resolve a), clean_elems (fst (resolve a)) (Split SEP b) (snd (resolve a)))"
proof -
  have "Join [a, b] = Clean (a @ SEP # b)"
    using assms by (simp add: Join_def)
  then show ?thesis
    using assms by (simp add: resolve_Clean resolve_append_sep)
qed


lemma Join2_Clean: "a \<noteq> [] \<Longrightarrow> Join [a, b] = Clean (a @ SEP # b)"
  by (simp add: Join_def)




lemma Join_sep_nonempty:
  "ys \<noteq> [] \<Longrightarrow> hd ys \<noteq> [] \<Longrightarrow> Join_sep c ys \<noteq> []"
  by (cases ys) (auto simp: Join_sep_Cons_if)

lemma resolve_empty [simp]: "resolve [] = (False, [])"
  by (simp add: resolve_def)

lemma resolve_root [simp]: "resolve [SEP] = (True, [])"
  by (simp add: resolve_def)

lemma resolve_trailing_sep: "a \<noteq> [] \<Longrightarrow> resolve (a @ [SEP]) = resolve a"
  using resolve_append_sep [of a "[]"] by simp




section \<open>File system operations\<close>

lemma map_of_filter_neq:
  "map_of (filter (\<lambda>(k, v). k \<noteq> p) xs) q = (if q = p then None else map_of xs q)"
  by (induction xs) auto
lemma lookup_put:
  "\<not> anchor p \<Longrightarrow> lookup (put w p n) q = (if q = p then Some n else lookup w q)"
  by (auto simp: lookup_def put_def map_of_filter_neq)
lemma umask_put [simp]: "umask (put w p n) = umask w"
  by (simp add: put_def)
lemma new_mode_put [simp]: "new_mode (put w p n) m = new_mode w m"
  by (simp add: new_mode_def)
lemma lookup_anchor: "anchor p \<Longrightarrow> lookup w p = Some (Directory 0x1ED)"
  by (simp add: lookup_def)
lemma lookup_None_not_anchor: "lookup w p = None \<Longrightarrow> \<not> anchor p"
  by (auto simp: lookup_def split: if_splits)
lemma lookup_File_not_anchor: "lookup w p = Some (File m c) \<Longrightarrow> \<not> anchor p"
  by (auto simp: lookup_def split: if_splits)
lemma umask_remove_under [simp]: "umask (remove_under w r) = umask w"
  by (simp add: remove_under_def)
lemma under_refl [simp]: "under p p"
  by (simp add: under_def)
lemma under_parent: "under q (parent p) \<Longrightarrow> under q p"
  by (auto simp: under_def parent_def dest: prefix_order.trans [OF _ prefixeq_butlast])
lemma under_trans: "under a b \<Longrightarrow> under b c \<Longrightarrow> under a c"
  by (auto simp: under_def)
lemma mkdir_at_Inr:
  "mkdir_at w p perm = Inr w' \<Longrightarrow>
   lookup w p = None \<and> w' = put w p (Directory (new_mode w perm))"
  by (auto simp: mkdir_at_def split: option.splits node.splits)
lemma fst_step [simp]: "fst (step cur c) = fst cur"
  by (simp add: step_def)
lemma clean_elems_step:
  "clean_elems r (c # cs) out = clean_elems r cs (snd (step (r, out) c))"
  by (simp add: step_def)
lemma walk_comps_resolve:
  "walk_comps w cur cs = Inr p \<Longrightarrow> p = (fst cur, clean_elems (fst cur) cs (snd cur))"
proof (induction cs arbitrary: cur)
  case Nil
  then show ?case by simp
next
  case (Cons c cs)
  from Cons.prems have "walk_comps w (step cur c) cs = Inr p"
    by (auto split: option.splits node.splits)
  from Cons.IH [OF this] show ?case
    by (cases cur) (simp add: clean_elems_step del: clean_elems.simps)
qed
lemma locate_resolve: "locate w name = Inr p \<Longrightarrow> name \<noteq> [] \<and> p = resolve name"
  by (auto simp: locate_def resolve_def Let_def split: if_splits dest!: walk_comps_resolve)
lemma resolve_append_seps: "a \<noteq> [] \<Longrightarrow> resolve (a @ replicate k SEP) = resolve a"
proof (induction k)
  case 0
  then show ?case by simp
next
  case (Suc k)
  have "a @ replicate (Suc k) SEP = (a @ replicate k SEP) @ [SEP]"
    by (simp add: replicate_append_same)
  with Suc resolve_trailing_sep [of "a @ replicate k SEP"] show ?case by simp
qed
lemma trim_seps_Nil: "trim_seps name = [] \<longleftrightarrow> name = []"
  by (auto simp: trim_seps_def Let_def)
lemma resolve_trim_seps: "resolve (trim_seps name) = resolve name"
proof (cases "rev (dropWhile (\<lambda>c. c = SEP) (rev name)) = []")
  case True
  then show ?thesis by (simp add: trim_seps_def)
next
  case False
  let ?t = "takeWhile (\<lambda>c. c = SEP) (rev name)"
  let ?d = "dropWhile (\<lambda>c. c = SEP) (rev name)"
  have "name = rev (rev name)" by simp
  also have "\<dots> = rev (?t @ ?d)" by (simp only: takeWhile_dropWhile_id)
  also have "\<dots> = rev ?d @ rev ?t" by (simp only: rev_append)
  finally have n: "name = rev ?d @ rev ?t" .
  have "\<forall>x \<in> set ?t. x = SEP" by (auto dest: set_takeWhileD)
  then have "?t = replicate (length ?t) SEP"
    by (metis replicate_eqI)
  then have "rev ?t = replicate (length ?t) SEP"
    by (metis rev_replicate)
  with n have "name = rev ?d @ replicate (length ?t) SEP" by simp
  then have "resolve name = resolve (rev ?d @ replicate (length ?t) SEP)" by simp
  also have "\<dots> = resolve (rev ?d)" using False by (intro resolve_append_seps) simp
  finally show ?thesis using False by (simp add: trim_seps_def Let_def)
qed
lemma os_Mkdir_Inr:
  assumes "os_Mkdir w name perm = Inr w'"
  shows "name \<noteq> [] \<and> lookup w (resolve name) = None
     \<and> w' = put w (resolve name) (Directory (new_mode w perm))"
proof -
  from assms obtain p where l: "locate w (trim_seps name) = Inr p"
    and m: "mkdir_at w p perm = Inr w'"
    by (auto simp: os_Mkdir_def split: sum.splits)
  from locate_resolve [OF l] have "name \<noteq> []" "p = resolve name"
    by (simp_all add: trim_seps_Nil resolve_trim_seps)
  with mkdir_at_Inr [OF m] show ?thesis by simp
qed
lemma os_MkdirAll_lookup:
  "os_MkdirAll w name perm = Inr w' \<Longrightarrow>
   umask w' = umask w \<and>
   (\<forall>q. lookup w' q = lookup w q \<or>
        (lookup w q = None \<and> lookup w' q = Some (Directory (new_mode w perm))))"
proof (induction w name perm arbitrary: w' rule: os_MkdirAll.induct)
  case (1 w path perm)
  show ?case
  proof (cases "os_Stat w path")
    case (Inr n)
    with "1.prems" show ?thesis
      by (cases n) (simp_all add: os_MkdirAll.simps [of w path])
  next
    case (Inl e0)
    let ?rec = "case mkdir_parent path of None \<Rightarrow> Inr w
                 | Some parent_path \<Rightarrow> os_MkdirAll w parent_path perm"
    from "1.prems" Inl obtain w1 where r: "?rec = Inr w1"
      and m: "(case os_Mkdir w1 path perm of
                  Inr w2 \<Rightarrow> Inr w2
                | Inl e \<Rightarrow>
                    (case os_Stat w1 path of
                       Inr (Directory m) \<Rightarrow> Inr w1
                     | _ \<Rightarrow> Inl e)) = Inr w'"
      by (simp add: os_MkdirAll.simps [of w path] split: sum.splits)
    have s1: "umask w1 = umask w \<and>
       (\<forall>q. lookup w1 q = lookup w q \<or>
        (lookup w q = None \<and> lookup w1 q = Some (Directory (new_mode w perm))))"
    proof (cases "mkdir_parent path")
      case None
      with r show ?thesis by simp
    next
      case (Some pp)
      with r have "os_MkdirAll w pp perm = Inr w1" by simp
      from "1.IH" [OF Inl Some this] show ?thesis .
    qed
    show ?thesis
    proof (cases "os_Mkdir w1 path perm")
      case (Inl e)
      with m have "w' = w1" by (auto split: sum.splits node.splits)
      with s1 show ?thesis by simp
    next
      case (Inr w2)
      with m have w2: "w' = w2" by simp
      from os_Mkdir_Inr [OF Inr] have n1: "lookup w1 (resolve path) = None"
        and p: "w2 = put w1 (resolve path) (Directory (new_mode w1 perm))" by blast+
      have na: "\<not> anchor (resolve path)" using n1 by (rule lookup_None_not_anchor)
      have nm: "new_mode w1 perm = new_mode w perm" using s1 by (simp add: new_mode_def)
      have "lookup w' q = lookup w q \<or>
          (lookup w q = None \<and> lookup w' q = Some (Directory (new_mode w perm)))" for q
      proof (cases "q = resolve path")
        case True
        from s1 n1 have "lookup w (resolve path) = None" by (metis option.distinct(1))
        with True w2 p na nm show ?thesis by (simp add: lookup_put)
      next
        case False
        with w2 p na have "lookup w' q = lookup w1 q" by (simp add: lookup_put)
        moreover from s1 have "lookup w1 q = lookup w q \<or>
            (lookup w q = None \<and> lookup w1 q = Some (Directory (new_mode w perm)))"
          by blast
        ultimately show ?thesis by simp
      qed
      with s1 w2 p show ?thesis by simp
    qed
  qed
qed
lemma os_MkdirAll_keeps:
  "os_MkdirAll w name perm = Inr w' \<Longrightarrow> lookup w q = Some n \<Longrightarrow> lookup w' q = Some n"
  using os_MkdirAll_lookup [of w name perm w'] by (metis option.distinct(1))
lemma open_trunc_Inr:
  "open_trunc w p perm = Inr w' \<Longrightarrow>
   \<not> anchor p \<and> (\<forall>m. lookup w p \<noteq> Some (Directory m))
     \<and> w' = put w p (File (keep_or_new w p perm) [])"
  by (auto simp: open_trunc_def keep_or_new_def lookup_anchor
      split: option.splits node.splits dest: lookup_None_not_anchor lookup_File_not_anchor)
lemma write_handle_Inr:
  "write_handle w p d = Inr w' \<Longrightarrow>
   \<exists>m c. lookup w p = Some (File m c) \<and> w' = put w p (File m d)"
  by (auto simp: write_handle_def split: option.splits node.splits)
lemma os_Create_Inr:
  assumes "os_Create w name = Inr w'"
  shows "name \<noteq> [] \<and> \<not> anchor (resolve name)
     \<and> (\<forall>m. lookup w (resolve name) \<noteq> Some (Directory m))
     \<and> w' = put w (resolve name) (File (keep_or_new w (resolve name) 0x1B6) [])
     \<and> locate w name = Inr (resolve name)"
proof -
  from assms obtain p where l: "locate w name = Inr p" and o: "open_trunc w p 0x1B6 = Inr w'"
    by (auto simp: os_Create_def split: sum.splits)
  from locate_resolve [OF l] have "name \<noteq> []" "p = resolve name" by simp_all
  with open_trunc_Inr [OF o] l show ?thesis by simp
qed
lemma os_WriteFile_Inr:
  assumes "os_WriteFile w name d perm = Inr w'"
  shows "name \<noteq> [] \<and> \<not> anchor (resolve name)
     \<and> (\<forall>m. lookup w (resolve name) \<noteq> Some (Directory m))
     \<and> w' = put (put w (resolve name) (File (keep_or_new w (resolve name) perm) []))
               (resolve name) (File (keep_or_new w (resolve name) perm) d)"
proof -
  from assms obtain p w1 where l: "locate w name = Inr p"
    and o: "open_trunc w p perm = Inr w1"
    and h: "write_handle w1 p d = Inr w'"
    by (auto simp: os_WriteFile_def split: sum.splits)
  from locate_resolve [OF l] have n: "name \<noteq> []" and p: "p = resolve name" by simp_all
  from open_trunc_Inr [OF o] p have
    na: "\<not> anchor (resolve name)" and nd: "\<forall>m. lookup w (resolve name) \<noteq> Some (Directory m)"
    and w1: "w1 = put w (resolve name) (File (keep_or_new w (resolve name) perm) [])"
    by blast+
  from write_handle_Inr [OF h] w1 na p have
    "w' = put w1 (resolve name) (File (keep_or_new w (resolve name) perm) d)"
    by (auto simp: lookup_put)
  with n na nd w1 show ?thesis by simp
qed
lemma os_WriteFile_existing:
  assumes "locate w name = Inr p" and "lookup w p = Some (File m c)"
  shows "os_WriteFile w name d perm = Inr (put (put w p (File m [])) p (File m d))"
proof -
  from assms(2) have na: "\<not> anchor p" by (rule lookup_File_not_anchor)
  from assms(2) have "open_trunc w p perm = Inr (put w p (File m []))"
    by (simp add: open_trunc_def)
  moreover have "write_handle (put w p (File m [])) p d = Inr (put (put w p (File m [])) p (File m d))"
    using na by (simp add: write_handle_def lookup_put)
  ultimately show ?thesis using assms(1) by (simp add: os_WriteFile_def)
qed
lemma os_Open_Inr:
  "os_Open w name = Inr p \<Longrightarrow> name \<noteq> [] \<and> p = resolve name \<and> lookup w p \<noteq> None"
  by (auto simp: os_Open_def split: sum.splits option.splits dest!: locate_resolve)
lemma lookup_put_put:
  "\<not> anchor p \<Longrightarrow>
   lookup (put (put w p a) p b) q = (if q = p then Some b else lookup w q)"
  by (simp add: lookup_put)

section \<open>Cleaned paths and the resolution by the system\<close>

lemma render_nonempty:
  assumes "normal_elems (fst p) (snd p)"
  shows "render p \<noteq> []"
proof (cases "fst p \<or> snd p = []")
  case True
  then show ?thesis by (auto simp: render_def)
next
  case False
  then have "hd (snd p) \<in> set (snd p)" by simp
  with assms have "hd (snd p) \<noteq> []" by (rule normal_not_empty)
  with False show ?thesis by (simp add: render_def Join_sep_nonempty)
qed
lemma Clean_nonempty: "Clean x \<noteq> []"
  unfolding Clean_render by (rule render_nonempty) (rule normal_resolve)

section \<open>Evaluating the operations on given files\<close>

lemmas eval_paths = resolve_def Clean_def Join_def Dir_def Base_def SEP_def Let_def render_def
  HasSuffix_def HasPrefix_def TrimSuffix_def TrimPrefix_def suffix_to_prefix
  template_text_def manifest_text_def

lemmas eval_fs = lookup_def put_def anchor_def parent_def under_def step_def locate_def
  os_Stat_def mkdir_at_def trim_seps_def os_Mkdir_def mkdir_parent_def os_MkdirAll.simps
  open_trunc_def os_Create_def write_handle_def os_WriteFile_def os_Chmod_def read_file_def
  ends_with_dot_def os_RemoveAll_def remove_under_def os_MkdirTemp_def os_Open_def
  new_mode_def perm_bits_def keep_or_new_def is_directory_def visible_def


section \<open>A destination that exists\<close>

lemma Name_parse_flags: "Name (parse_flags opts flags) = Name opts"
  by (induction flags arbitrary: opts) auto


text \<open>
  \<^verbatim>\<open>os.Stat\<close> is given the project name as it was typed. The system resolves it element
  by element: a name that passes through a missing directory is not found, even where
  cleaning the name would lead to an entry that exists, and a name with a trailing
  separator is found only when it names a directory. When \<^verbatim>\<open>os.Stat\<close> fails, the
  project is created.
\<close>

lemma os_Stat_missing_element:
  "os_Stat \<lparr>entries = [((False, [''demo'']), Directory 0x1ED)], umask = 0x12\<rparr>
     ''nonexistent/../demo'' = Inl (FilesystemError ''ENOENT'')"
  by (simp add: eval_fs eval_paths)

lemma os_Stat_file_with_separator:
  "os_Stat \<lparr>entries = [((False, [''demo'']), File 0x1A4 [])], umask = 0x12\<rparr>
     ''demo/'' = Inl (FilesystemError ''ENOTDIR'')"
  by (simp add: eval_fs eval_paths)

lemma handleNewProject_absent:
  "os_Stat w name = Inl e \<Longrightarrow>
   handleNewProject ev w (name # flags)
     = createProjectFromGitHub ev w (parseProjectArgs (name # flags))"
  by (simp add: handleNewProject_def parseProjectArgs_def Name_parse_flags Let_def)



section \<open>What \<^verbatim>\<open>copyFile\<close> writes\<close>

lemma copyFile_steps:
  assumes "copyFile w src dest opts = (None, w')"
  obtains w1 w2 content where
    "src \<noteq> []"
    "os_MkdirAll w (Dir dest) 0x1ED = Inr w1"
    "os_Create w1 dest = Inr w2"
    "read_file w2 (resolve src) = Inr content"
    "if HasSuffix src ''.template''
     then os_WriteFile w2 (TrimSuffix dest ''.template'') (template_text opts content) 0x1A4 = Inr w'
     else if Base src = ''go.mod'' \<or> HasSuffix src ''.go''
     then os_WriteFile w2 dest
            (if Base src = ''go.mod'' then manifest_text opts content
             else replaceModuleReferences content (Module opts)) 0x1A4 = Inr w'
     else write_handle w2 (resolve dest) content = Inr w'"
proof -
  from assms obtain sf where o: "os_Open w src = Inr sf"
    by (auto simp: copyFile_def split: sum.splits)
  then have s: "src \<noteq> []" "sf = resolve src"
    by (auto dest: os_Open_Inr)
  from assms o obtain w1 where m: "os_MkdirAll w (Dir dest) 0x1ED = Inr w1"
    by (auto simp: copyFile_def split: sum.splits)
  from assms o m obtain w2 where c: "os_Create w1 dest = Inr w2"
    by (auto simp: copyFile_def split: sum.splits)
  from assms o m c s(2) obtain content where r: "read_file w2 (resolve src) = Inr content"
    by (auto simp: copyFile_def Let_def split: sum.splits if_splits)
  from assms o m c s(2) r have
    "if HasSuffix src ''.template''
     then os_WriteFile w2 (TrimSuffix dest ''.template'') (template_text opts content) 0x1A4 = Inr w'
     else if Base src = ''go.mod'' \<or> HasSuffix src ''.go''
     then os_WriteFile w2 dest
            (if Base src = ''go.mod'' then manifest_text opts content
             else replaceModuleReferences content (Module opts)) 0x1A4 = Inr w'
     else write_handle w2 (resolve dest) content = Inr w'"
    by (auto simp: copyFile_def Let_def split: sum.splits if_splits)
  with s(1) m c r show ?thesis by (rule that)
qed
lemma keep_or_new_cong:
  "lookup w1 p = lookup w p \<Longrightarrow> umask w1 = umask w \<Longrightarrow>
   keep_or_new w1 p perm = keep_or_new w p perm"
proof -
  assume a: "lookup w1 p = lookup w p" and "umask w1 = umask w"
  then have "new_mode w1 perm = new_mode w perm" by (simp add: new_mode_def)
  with a show ?thesis by (simp add: keep_or_new_def split: option.splits node.splits)
qed
lemma copyFile_success:
  assumes run: "copyFile w src dest opts = (None, w')"
    and src: "lookup w (resolve src) = Some (File m c)"
    and ne: "resolve src \<noteq> resolve dest"
  shows "lookup w' (resolve (rule_dest (spec_rule src) dest))
      = Some (File
          (if HasSuffix src ''.template''
              \<and> resolve (TrimSuffix dest ''.template'') \<noteq> resolve dest
           then keep_or_new w (resolve (TrimSuffix dest ''.template'')) 0x1A4
           else keep_or_new w (resolve dest) 0x1B6)
          (rule_text (spec_rule src) opts c))"
    and "HasSuffix src ''.template'' \<Longrightarrow>
         resolve (TrimSuffix dest ''.template'') \<noteq> resolve dest \<Longrightarrow>
         lookup w' (resolve dest) = Some (File (keep_or_new w (resolve dest) 0x1B6) [])"
proof -
  let ?q = "resolve dest"
  let ?d1 = "TrimSuffix dest ''.template''"
  let ?q1 = "resolve ?d1"
  from run obtain w1 w2 content where
    mk: "os_MkdirAll w (Dir dest) 0x1ED = Inr w1"
    and cr: "os_Create w1 dest = Inr w2"
    and rd: "read_file w2 (resolve src) = Inr content"
    and br: "if HasSuffix src ''.template''
     then os_WriteFile w2 ?d1 (template_text opts content) 0x1A4 = Inr w'
     else if Base src = ''go.mod'' \<or> HasSuffix src ''.go''
     then os_WriteFile w2 dest
            (if Base src = ''go.mod'' then manifest_text opts content
             else replaceModuleReferences content (Module opts)) 0x1A4 = Inr w'
     else write_handle w2 ?q content = Inr w'"
    by (rule copyFile_steps)
  from os_MkdirAll_lookup [OF mk] have u1: "umask w1 = umask w"
    and f1: "\<And>q. lookup w1 q = lookup w q \<or>
        (lookup w q = None \<and> lookup w1 q = Some (Directory (new_mode w 0x1ED)))"
    by blast+
  from os_Create_Inr [OF cr] have naq: "\<not> anchor ?q"
    and ndq: "\<forall>m. lookup w1 ?q \<noteq> Some (Directory m)"
    and w2: "w2 = put w1 ?q (File (keep_or_new w1 ?q 0x1B6) [])"
    by blast+
  have lq: "lookup w1 ?q = lookup w ?q" using f1 [of ?q] ndq by auto
  have kq: "keep_or_new w1 ?q 0x1B6 = keep_or_new w ?q 0x1B6"
    using lq u1 by (rule keep_or_new_cong)
  have l2: "lookup w2 q = (if q = ?q then Some (File (keep_or_new w ?q 0x1B6) []) else lookup w1 q)"
    for q
    unfolding w2 kq using naq by (simp add: lookup_put)
  have u2: "umask w2 = umask w" using w2 u1 by simp
  have "lookup w1 (resolve src) = Some (File m c)"
    using os_MkdirAll_keeps [OF mk src] .
  with l2 [of "resolve src"] ne have "lookup w2 (resolve src) = Some (File m c)" by simp
  with rd have content: "content = c" by (simp add: read_file_def)
  have kq2: "keep_or_new w2 ?q perm = keep_or_new w ?q 0x1B6" for perm
    using l2 [of ?q] by (simp add: keep_or_new_def)
  show "lookup w' (resolve (rule_dest (spec_rule src) dest))
      = Some (File
          (if HasSuffix src ''.template'' \<and> ?q1 \<noteq> ?q
           then keep_or_new w ?q1 0x1A4 else keep_or_new w ?q 0x1B6)
          (rule_text (spec_rule src) opts c))"
  proof (cases "HasSuffix src ''.template''")
    case True
    with br have wf: "os_WriteFile w2 ?d1 (template_text opts content) 0x1A4 = Inr w'" by simp
    from os_WriteFile_Inr [OF wf] have na1: "\<not> anchor ?q1"
      and nd1: "\<forall>m. lookup w2 ?q1 \<noteq> Some (Directory m)"
      and w': "w' = put (put w2 ?q1 (File (keep_or_new w2 ?q1 0x1A4) []))
               ?q1 (File (keep_or_new w2 ?q1 0x1A4) (template_text opts content))"
      by blast+
    have l': "lookup w' ?q1 = Some (File (keep_or_new w2 ?q1 0x1A4) (template_text opts c))"
      unfolding w' content using na1 by (simp add: lookup_put)
    have k: "keep_or_new w2 ?q1 0x1A4
        = (if ?q1 \<noteq> ?q then keep_or_new w ?q1 0x1A4 else keep_or_new w ?q 0x1B6)"
    proof (cases "?q1 = ?q")
      case True
      then show ?thesis using kq2 by simp
    next
      case False
      with l2 [of ?q1] have a: "lookup w2 ?q1 = lookup w1 ?q1" by simp
      with nd1 f1 [of ?q1] have "lookup w1 ?q1 = lookup w ?q1" by auto
      with a have "lookup w2 ?q1 = lookup w ?q1" by simp
      from keep_or_new_cong [OF this u2] False show ?thesis by simp
    qed
    from True l' k show ?thesis by (simp add: spec_rule_def)
  next
    case False
    note nt = this
    show ?thesis
    proof (cases "Base src = ''go.mod'' \<or> HasSuffix src ''.go''")
      case True
      let ?t = "if Base src = ''go.mod'' then manifest_text opts content
             else replaceModuleReferences content (Module opts)"
      from True nt br have wf: "os_WriteFile w2 dest ?t 0x1A4 = Inr w'" by simp
      from os_WriteFile_Inr [OF wf] have
        w': "w' = put (put w2 ?q (File (keep_or_new w2 ?q 0x1A4) []))
               ?q (File (keep_or_new w2 ?q 0x1A4) ?t)"
        by blast
      have "lookup w' ?q = Some (File (keep_or_new w ?q 0x1B6) ?t)"
        unfolding w' kq2 using naq by (simp add: lookup_put)
      with True nt content show ?thesis by (auto simp: spec_rule_def)
    next
      case False
      with nt br have wh: "write_handle w2 ?q content = Inr w'" by simp
      from write_handle_Inr [OF wh] l2 [of ?q] have
        "w' = put w2 ?q (File (keep_or_new w ?q 0x1B6) content)" by auto
      then have "lookup w' ?q = Some (File (keep_or_new w ?q 0x1B6) content)"
        using naq by (simp add: lookup_put)
      with False nt content show ?thesis by (auto simp: spec_rule_def)
    qed
  qed
  show "lookup w' ?q = Some (File (keep_or_new w ?q 0x1B6) [])"
    if t: "HasSuffix src ''.template''" and d: "?q1 \<noteq> ?q"
  proof -
    from t br have wf: "os_WriteFile w2 ?d1 (template_text opts content) 0x1A4 = Inr w'" by simp
    from os_WriteFile_Inr [OF wf] have na1: "\<not> anchor ?q1"
      and w': "w' = put (put w2 ?q1 (File (keep_or_new w2 ?q1 0x1A4) []))
               ?q1 (File (keep_or_new w2 ?q1 0x1A4) (template_text opts content))"
      by blast+
    have "lookup w' ?q = lookup w2 ?q"
      unfolding w' using na1 d by (simp add: lookup_put)
    with l2 [of ?q] show ?thesis by simp
  qed
qed

section \<open>One rule for each file, and its permission bits\<close>

lemma copyFile_rule:
  assumes op: "os_Open w src = Inr sf"
    and src: "lookup w sf = Some (File m c)"
    and ne: "sf \<noteq> resolve dest"
    and mk: "os_MkdirAll w (Dir dest) 0x1ED = Inr w1"
    and cr: "os_Create w1 dest = Inr w2"
  shows "copyFile w src dest opts =
     (if spec_rule src = Passthrough
      then (None, put w2 (resolve dest) (File (keep_or_new w (resolve dest) 0x1B6) c))
      else case os_WriteFile w2 (rule_dest (spec_rule src) dest)
                  (rule_text (spec_rule src) opts c) 0x1A4 of
             Inl e \<Rightarrow> (Some e, w2)
           | Inr w3 \<Rightarrow> (None, w3))"
proof -
  let ?q = "resolve dest"
  from os_MkdirAll_lookup [OF mk] have u1: "umask w1 = umask w"
    and f1: "\<And>q. lookup w1 q = lookup w q \<or>
        (lookup w q = None \<and> lookup w1 q = Some (Directory (new_mode w 0x1ED)))"
    by blast+
  from os_Create_Inr [OF cr] have naq: "\<not> anchor ?q"
    and ndq: "\<forall>m. lookup w1 ?q \<noteq> Some (Directory m)"
    and w2: "w2 = put w1 ?q (File (keep_or_new w1 ?q 0x1B6) [])"
    by blast+
  have lq: "lookup w1 ?q = lookup w ?q" using f1 [of ?q] ndq by auto
  have kq: "keep_or_new w1 ?q 0x1B6 = keep_or_new w ?q 0x1B6"
    using lq u1 by (rule keep_or_new_cong)
  have l2: "lookup w2 x = (if x = ?q then Some (File (keep_or_new w ?q 0x1B6) []) else lookup w1 x)"
    for x
    unfolding w2 kq using naq by (simp add: lookup_put)
  have "lookup w1 sf = Some (File m c)" using os_MkdirAll_keeps [OF mk src] .
  with l2 [of sf] ne have "lookup w2 sf = Some (File m c)" by simp
  then have rd: "read_file w2 sf = Inr c" by (simp add: read_file_def)
  have wh: "write_handle w2 ?q c = Inr (put w2 ?q (File (keep_or_new w ?q 0x1B6) c))"
    using l2 [of ?q] by (simp add: write_handle_def)
  show ?thesis
  proof (cases "HasSuffix src ''.template''")
    case True
    then have "spec_rule src = TemplateSuffix" by (simp add: spec_rule_def)
    with True op mk cr rd show ?thesis
      by (simp add: copyFile_def Let_def split: sum.splits)
  next
    case False
    note nt = this
    show ?thesis
    proof (cases "Base src = ''go.mod''")
      case True
      with nt have "spec_rule src = Manifest" by (simp add: spec_rule_def)
      with True nt op mk cr rd show ?thesis
        by (simp add: copyFile_def Let_def split: sum.splits)
    next
      case False
      note nm = this
      show ?thesis
      proof (cases "HasSuffix src ''.go''")
        case True
        with nt nm have "spec_rule src = SourceReference" by (simp add: spec_rule_def)
        with True nt nm op mk cr rd show ?thesis
          by (simp add: copyFile_def Let_def split: sum.splits)
      next
        case False
        with nt nm have "spec_rule src = Passthrough" by (simp add: spec_rule_def)
        with False nt nm op mk cr rd wh show ?thesis
          by (simp add: copyFile_def Let_def)
      qed
    qed
  qed
qed
lemma copyFile_rule_written:
  assumes op: "os_Open w src = Inr sf"
    and src: "lookup w sf = Some (File m c)"
    and ne: "sf \<noteq> resolve dest"
    and mk: "os_MkdirAll w (Dir dest) 0x1ED = Inr w1"
    and cr: "os_Create w1 dest = Inr w2"
    and run: "copyFile w src dest opts = (None, w')"
  shows "(\<exists>m1. lookup w' (resolve (rule_dest (spec_rule src) dest))
            = Some (File m1 (rule_text (spec_rule src) opts c)))
     \<and> (\<forall>x. x \<noteq> resolve dest \<and> x \<noteq> resolve (rule_dest (spec_rule src) dest)
            \<longrightarrow> lookup w' x = lookup w1 x)"
proof -
  let ?q = "resolve dest"
  let ?q1 = "resolve (rule_dest (spec_rule src) dest)"
  from os_Create_Inr [OF cr] have naq: "\<not> anchor ?q"
    and w2: "w2 = put w1 ?q (File (keep_or_new w1 ?q 0x1B6) [])"
    by blast+
  have l2: "x \<noteq> ?q \<Longrightarrow> lookup w2 x = lookup w1 x" for x
    unfolding w2 using naq by (simp add: lookup_put)
  note eq = copyFile_rule [OF op src ne mk cr, of opts]
  show ?thesis
  proof (cases "spec_rule src = Passthrough")
    case True
    with eq run have "w' = put w2 ?q (File (keep_or_new w ?q 0x1B6) c)" by simp
    with True naq l2 show ?thesis by (simp add: lookup_put)
  next
    case False
    with eq run have
      "os_WriteFile w2 (rule_dest (spec_rule src) dest) (rule_text (spec_rule src) opts c) 0x1A4
         = Inr w'"
      by (simp split: sum.splits)
    from os_WriteFile_Inr [OF this] obtain k where na1: "\<not> anchor ?q1"
      and w': "w' = put (put w2 ?q1 (File k [])) ?q1 (File k (rule_text (spec_rule src) opts c))"
      by blast
    from w' na1 l2 show ?thesis by (simp add: lookup_put)
  qed
qed
text \<open>
  Claim C7. Let the source be a regular file that can be opened, and let the directory
  of the destination and the destination itself be created without an error. Then what
  \<^verbatim>\<open>copyFile\<close> goes on to do is what one rule does, the first that matches the source
  name in the order template suffix, manifest, source reference, passthrough (\<open>spec_rule\<close>):
  the passthrough rule writes the content of the source through the open destination and
  succeeds; each of the other rules hands its own text, for its own path, to
  \<^verbatim>\<open>os.WriteFile\<close>, and the copy succeeds or fails as that call does. After a copy that
  succeeds the path of the rule holds the text of that rule, and no entry other than that
  path and the destination differs from what it was when the directory had been made. A
  name that ends in \<open>.go.template\<close> falls under the template-suffix rule.
\<close>

theorem copyFile_rule_priority:
  assumes "os_Open w src = Inr sf"
    and "lookup w sf = Some (File m c)"
    and "sf \<noteq> resolve dest"
    and "os_MkdirAll w (Dir dest) 0x1ED = Inr w1"
    and "os_Create w1 dest = Inr w2"
  shows "copyFile w src dest opts =
       (if spec_rule src = Passthrough
        then (None, put w2 (resolve dest) (File (keep_or_new w (resolve dest) 0x1B6) c))
        else case os_WriteFile w2 (rule_dest (spec_rule src) dest)
                    (rule_text (spec_rule src) opts c) 0x1A4 of
               Inl e \<Rightarrow> (Some e, w2)
             | Inr w3 \<Rightarrow> (None, w3))
     \<and> (copyFile w src dest opts = (None, w') \<longrightarrow>
          (\<exists>m1. lookup w' (resolve (rule_dest (spec_rule src) dest))
              = Some (File m1 (rule_text (spec_rule src) opts c)))
          \<and> (\<forall>x. x \<noteq> resolve dest \<and> x \<noteq> resolve (rule_dest (spec_rule src) dest)
                \<longrightarrow> lookup w' x = lookup w1 x))
     \<and> spec_rule (stem @ ''.go.template'') = TemplateSuffix"
proof (intro conjI impI)
  show "copyFile w src dest opts =
       (if spec_rule src = Passthrough
        then (None, put w2 (resolve dest) (File (keep_or_new w (resolve dest) 0x1B6) c))
        else case os_WriteFile w2 (rule_dest (spec_rule src) dest)
                    (rule_text (spec_rule src) opts c) 0x1A4 of
               Inl e \<Rightarrow> (Some e, w2)
             | Inr w3 \<Rightarrow> (None, w3))"
    using assms by (rule copyFile_rule)
next
  assume run: "copyFile w src dest opts = (None, w')"
  from copyFile_rule_written [OF assms run]
  show "\<exists>m1. lookup w' (resolve (rule_dest (spec_rule src) dest))
              = Some (File m1 (rule_text (spec_rule src) opts c))"
    and "\<forall>x. x \<noteq> resolve dest \<and> x \<noteq> resolve (rule_dest (spec_rule src) dest)
                \<longrightarrow> lookup w' x = lookup w1 x"
    by blast+
next
  have "suffix ''.template'' (stem @ ''.go'' @ ''.template'')"
    unfolding suffix_def by (metis append.assoc)
  then show "spec_rule (stem @ ''.go.template'') = TemplateSuffix"
    by (simp add: spec_rule_def HasSuffix_def)
qed

theorem copyFile_rule_priority_witness:
  "(fst (copyFile (example_fs 0x12) ''/tmp/g/main.go.template'' ''demo/main.go.template'' example_opts) = None
      \<and> (\<exists>m1. lookup (snd (copyFile (example_fs 0x12) ''/tmp/g/main.go.template'' ''demo/main.go.template'' example_opts))
             (resolve ''demo/main.go'') = Some (File m1 (''package demo''))))
   \<and> (fst (copyFile (example_fs 0x12) ''/tmp/g/go.mod'' ''demo/go.mod'' example_opts) = None
      \<and> (\<exists>m1. lookup (snd (copyFile (example_fs 0x12) ''/tmp/g/go.mod'' ''demo/go.mod'' example_opts))
             (resolve ''demo/go.mod'') = Some (File m1 (''module example.com/demo'' @ [NL] @ ''go 1.22''))))
   \<and> (fst (copyFile (example_fs 0x12) ''/tmp/g/app.go'' ''demo/app.go'' example_opts) = None
      \<and> (\<exists>m1. lookup (snd (copyFile (example_fs 0x12) ''/tmp/g/app.go'' ''demo/app.go'' example_opts))
             (resolve ''demo/app.go'') = Some (File m1 (''import '' @ [DQ] @ ''example.com/demo/sub/pkg'' @ [DQ]))))
   \<and> (fst (copyFile (example_fs 0x12) ''/tmp/g/LICENSE'' ''demo/LICENSE'' example_opts) = None
      \<and> (\<exists>m1. lookup (snd (copyFile (example_fs 0x12) ''/tmp/g/LICENSE'' ''demo/LICENSE'' example_opts))
             (resolve ''demo/LICENSE'') = Some (File m1 (''MIT''))))
   \<and> spec_rule ''/tmp/g/main.go.template'' = TemplateSuffix"
proof -
  let ?w = "example_fs 0x12"
  have t: "fst (copyFile (example_fs 0x12) ''/tmp/g/main.go.template'' ''demo/main.go.template'' example_opts) = None
      \<and> (\<exists>m1. lookup (snd (copyFile (example_fs 0x12) ''/tmp/g/main.go.template'' ''demo/main.go.template'' example_opts))
             (resolve ''demo/main.go'') = Some (File m1 (''package demo'')))"
  proof -
    let ?src = "''/tmp/g/main.go.template''"
    let ?dest = "''demo/main.go.template''"
    let ?r = "copyFile ?w ?src ?dest example_opts"
    have h1: "os_Open ?w ?src = Inr (True, [''tmp'', ''g'', ''main.go.template''])"
      by (simp add: example_fs_def eval_paths eval_fs)
    have h2: "lookup ?w (True, [''tmp'', ''g'', ''main.go.template'']) = Some (File 0x1ED (''package {{PROJECT_NAME}}''))"
      by (simp add: example_fs_def eval_fs)
    have h3: "(True, [''tmp'', ''g'', ''main.go.template'']) \<noteq> resolve ?dest"
      by (simp add: eval_paths)
    have h4: "os_MkdirAll ?w (Dir ?dest) 0x1ED = Inr ?w"
      by (simp add: example_fs_def eval_paths eval_fs)
    have h5: "os_Create ?w ?dest = Inr (put ?w (False, [''demo'', ''main.go.template'']) (File 0x1A4 []))"
      by (simp add: example_fs_def eval_paths eval_fs)
    have run: "?r = (None, snd ?r)"
      by (simp add: copyFile_def example_fs_def example_opts_def eval_paths eval_fs eval_strings)
    have sr: "resolve (rule_dest (spec_rule ?src) ?dest) = resolve ''demo/main.go''"
      by (simp add: spec_rule_def eval_paths)
    have rt: "rule_text (spec_rule ?src) example_opts (''package {{PROJECT_NAME}}'') = ''package demo''"
      by (simp add: spec_rule_def example_opts_def eval_paths eval_strings)
    from copyFile_rule_priority [OF h1 h2 h3 h4 h5, of example_opts "snd ?r" "''/tmp/g/main''"] run
    have "\<exists>m1. lookup (snd ?r) (resolve (rule_dest (spec_rule ?src) ?dest))
        = Some (File m1 (rule_text (spec_rule ?src) example_opts (''package {{PROJECT_NAME}}'')))"
      by blast
    then have "\<exists>m1. lookup (snd ?r) (resolve ''demo/main.go'') = Some (File m1 (''package demo''))"
      unfolding sr rt .
    moreover from run have "fst ?r = None" by (metis fst_conv)
    ultimately show ?thesis by blast
  qed
  have m: "fst (copyFile (example_fs 0x12) ''/tmp/g/go.mod'' ''demo/go.mod'' example_opts) = None
      \<and> (\<exists>m1. lookup (snd (copyFile (example_fs 0x12) ''/tmp/g/go.mod'' ''demo/go.mod'' example_opts))
             (resolve ''demo/go.mod'') = Some (File m1 (''module example.com/demo'' @ [NL] @ ''go 1.22'')))"
  proof -
    let ?src = "''/tmp/g/go.mod''"
    let ?dest = "''demo/go.mod''"
    let ?r = "copyFile ?w ?src ?dest example_opts"
    have h1: "os_Open ?w ?src = Inr (True, [''tmp'', ''g'', ''go.mod''])"
      by (simp add: example_fs_def eval_paths eval_fs)
    have h2: "lookup ?w (True, [''tmp'', ''g'', ''go.mod'']) = Some (File 0x1A4 (''module github.com/galaplate/galaplate'' @ [NL] @ ''go 1.22''))"
      by (simp add: example_fs_def eval_fs)
    have h3: "(True, [''tmp'', ''g'', ''go.mod'']) \<noteq> resolve ?dest"
      by (simp add: eval_paths)
    have h4: "os_MkdirAll ?w (Dir ?dest) 0x1ED = Inr ?w"
      by (simp add: example_fs_def eval_paths eval_fs)
    have h5: "os_Create ?w ?dest = Inr (put ?w (False, [''demo'', ''go.mod'']) (File 0x1A4 []))"
      by (simp add: example_fs_def eval_paths eval_fs)
    have run: "?r = (None, snd ?r)"
      by (simp add: copyFile_def example_fs_def example_opts_def eval_paths eval_fs eval_strings)
    have sr: "resolve (rule_dest (spec_rule ?src) ?dest) = resolve ''demo/go.mod''"
      by (simp add: spec_rule_def eval_paths)
    have rt: "rule_text (spec_rule ?src) example_opts (''module github.com/galaplate/galaplate'' @ [NL] @ ''go 1.22'') = ''module example.com/demo'' @ [NL] @ ''go 1.22''"
      by (simp add: spec_rule_def example_opts_def eval_paths eval_strings)
    from copyFile_rule_priority [OF h1 h2 h3 h4 h5, of example_opts "snd ?r" "''/tmp/g/main''"] run
    have "\<exists>m1. lookup (snd ?r) (resolve (rule_dest (spec_rule ?src) ?dest))
        = Some (File m1 (rule_text (spec_rule ?src) example_opts (''module github.com/galaplate/galaplate'' @ [NL] @ ''go 1.22'')))"
      by blast
    then have "\<exists>m1. lookup (snd ?r) (resolve ''demo/go.mod'') = Some (File m1 (''module example.com/demo'' @ [NL] @ ''go 1.22''))"
      unfolding sr rt .
    moreover from run have "fst ?r = None" by (metis fst_conv)
    ultimately show ?thesis by blast
  qed
  have s: "fst (copyFile (example_fs 0x12) ''/tmp/g/app.go'' ''demo/app.go'' example_opts) = None
      \<and> (\<exists>m1. lookup (snd (copyFile (example_fs 0x12) ''/tmp/g/app.go'' ''demo/app.go'' example_opts))
             (resolve ''demo/app.go'') = Some (File m1 (''import '' @ [DQ] @ ''example.com/demo/sub/pkg'' @ [DQ])))"
  proof -
    let ?src = "''/tmp/g/app.go''"
    let ?dest = "''demo/app.go''"
    let ?r = "copyFile ?w ?src ?dest example_opts"
    have h1: "os_Open ?w ?src = Inr (True, [''tmp'', ''g'', ''app.go''])"
      by (simp add: example_fs_def eval_paths eval_fs)
    have h2: "lookup ?w (True, [''tmp'', ''g'', ''app.go'']) = Some (File 0x1A4 (''import '' @ [DQ] @ ''github.com/galaplate/galaplate/sub/pkg'' @ [DQ]))"
      by (simp add: example_fs_def eval_fs)
    have h3: "(True, [''tmp'', ''g'', ''app.go'']) \<noteq> resolve ?dest"
      by (simp add: eval_paths)
    have h4: "os_MkdirAll ?w (Dir ?dest) 0x1ED = Inr ?w"
      by (simp add: example_fs_def eval_paths eval_fs)
    have h5: "os_Create ?w ?dest = Inr (put ?w (False, [''demo'', ''app.go'']) (File 0x1A4 []))"
      by (simp add: example_fs_def eval_paths eval_fs)
    have run: "?r = (None, snd ?r)"
      by (simp add: copyFile_def example_fs_def example_opts_def eval_paths eval_fs eval_strings)
    have sr: "resolve (rule_dest (spec_rule ?src) ?dest) = resolve ''demo/app.go''"
      by (simp add: spec_rule_def eval_paths)
    have rt: "rule_text (spec_rule ?src) example_opts (''import '' @ [DQ] @ ''github.com/galaplate/galaplate/sub/pkg'' @ [DQ]) = ''import '' @ [DQ] @ ''example.com/demo/sub/pkg'' @ [DQ]"
      by (simp add: spec_rule_def example_opts_def eval_paths eval_strings)
    from copyFile_rule_priority [OF h1 h2 h3 h4 h5, of example_opts "snd ?r" "''/tmp/g/main''"] run
    have "\<exists>m1. lookup (snd ?r) (resolve (rule_dest (spec_rule ?src) ?dest))
        = Some (File m1 (rule_text (spec_rule ?src) example_opts (''import '' @ [DQ] @ ''github.com/galaplate/galaplate/sub/pkg'' @ [DQ])))"
      by blast
    then have "\<exists>m1. lookup (snd ?r) (resolve ''demo/app.go'') = Some (File m1 (''import '' @ [DQ] @ ''example.com/demo/sub/pkg'' @ [DQ]))"
      unfolding sr rt .
    moreover from run have "fst ?r = None" by (metis fst_conv)
    ultimately show ?thesis by blast
  qed
  have p: "fst (copyFile (example_fs 0x12) ''/tmp/g/LICENSE'' ''demo/LICENSE'' example_opts) = None
      \<and> (\<exists>m1. lookup (snd (copyFile (example_fs 0x12) ''/tmp/g/LICENSE'' ''demo/LICENSE'' example_opts))
             (resolve ''demo/LICENSE'') = Some (File m1 (''MIT'')))"
  proof -
    let ?src = "''/tmp/g/LICENSE''"
    let ?dest = "''demo/LICENSE''"
    let ?r = "copyFile ?w ?src ?dest example_opts"
    have h1: "os_Open ?w ?src = Inr (True, [''tmp'', ''g'', ''LICENSE''])"
      by (simp add: example_fs_def eval_paths eval_fs)
    have h2: "lookup ?w (True, [''tmp'', ''g'', ''LICENSE'']) = Some (File 0x124 (''MIT''))"
      by (simp add: example_fs_def eval_fs)
    have h3: "(True, [''tmp'', ''g'', ''LICENSE'']) \<noteq> resolve ?dest"
      by (simp add: eval_paths)
    have h4: "os_MkdirAll ?w (Dir ?dest) 0x1ED = Inr ?w"
      by (simp add: example_fs_def eval_paths eval_fs)
    have h5: "os_Create ?w ?dest = Inr (put ?w (False, [''demo'', ''LICENSE'']) (File 0x1A4 []))"
      by (simp add: example_fs_def eval_paths eval_fs)
    have run: "?r = (None, snd ?r)"
      by (simp add: copyFile_def example_fs_def example_opts_def eval_paths eval_fs eval_strings)
    have sr: "resolve (rule_dest (spec_rule ?src) ?dest) = resolve ''demo/LICENSE''"
      by (simp add: spec_rule_def eval_paths)
    have rt: "rule_text (spec_rule ?src) example_opts (''MIT'') = ''MIT''"
      by (simp add: spec_rule_def example_opts_def eval_paths eval_strings)
    from copyFile_rule_priority [OF h1 h2 h3 h4 h5, of example_opts "snd ?r" "''/tmp/g/main''"] run
    have "\<exists>m1. lookup (snd ?r) (resolve (rule_dest (spec_rule ?src) ?dest))
        = Some (File m1 (rule_text (spec_rule ?src) example_opts (''MIT'')))"
      by blast
    then have "\<exists>m1. lookup (snd ?r) (resolve ''demo/LICENSE'') = Some (File m1 (''MIT''))"
      unfolding sr rt .
    moreover from run have "fst ?r = None" by (metis fst_conv)
    ultimately show ?thesis by blast
  qed
  have g: "spec_rule ''/tmp/g/main.go.template'' = TemplateSuffix"
    by (simp add: spec_rule_def eval_paths)
  from t m s p g show ?thesis by blast
qed




section \<open>Template files\<close>

lemma replace_scan_skip:
  "old \<noteq> [] \<Longrightarrow> hd old \<notin> set t \<Longrightarrow>
   replace_scan old new (t @ rest) = t @ replace_scan old new rest"
proof (induction t)
  case Nil
  then show ?case by simp
next
  case (Cons x t)
  then have "\<not> prefix old (x # t @ rest)"
    by (cases old) auto
  with Cons show ?case by simp
qed

lemma replace_scan_hit:
  "old \<noteq> [] \<Longrightarrow> replace_scan old new (old @ rest) = new @ replace_scan old new rest"
  by (cases old) auto

lemma replace_scan_brace2:
  assumes "old = CHR 0x7B # CHR 0x7B # k # old1" "j \<noteq> k" "j \<noteq> CHR 0x7B"
    and "CHR 0x7B \<notin> set s1"
  shows "replace_scan old new ((CHR 0x7B # CHR 0x7B # j # s1) @ rest)
      = (CHR 0x7B # CHR 0x7B # j # s1) @ replace_scan old new rest"
proof -
  have "hd old \<notin> set (j # s1)" "old \<noteq> []" using assms by auto
  then have "replace_scan old new ((j # s1) @ rest) = (j # s1) @ replace_scan old new rest"
    by (rule replace_scan_skip [rotated])
  moreover have "replace_scan old new (CHR 0x7B # CHR 0x7B # (j # s1) @ rest)
      = CHR 0x7B # CHR 0x7B # replace_scan old new ((j # s1) @ rest)"
    using assms(1-3) by simp
  ultimately show ?thesis by simp
qed

lemma replace_scan_other_marker:
  assumes "old \<in> set markers" "piece_text p \<noteq> old" "\<forall>t. p \<noteq> Text t"
  shows "replace_scan old new (piece_text p @ rest) = piece_text p @ replace_scan old new rest"
proof -
  from assms(1) obtain k old1 where o: "old = CHR 0x7B # CHR 0x7B # k # old1"
    and k: "k \<in> {CHR ''P'', CHR ''M'', CHR ''D'', CHR ''G''}"
    and ko: "k = CHR ''P'' \<longrightarrow> old = ''{{PROJECT_NAME}}''"
      "k = CHR ''M'' \<longrightarrow> old = ''{{MODULE_NAME}}''"
      "k = CHR ''D'' \<longrightarrow> old = ''{{DB_TYPE}}''"
      "k = CHR ''G'' \<longrightarrow> old = ''{{GALAPLATE_CORE_VERSION}}''"
    by (auto simp: markers_def)
  from assms(3) obtain j s1 where p: "piece_text p = CHR 0x7B # CHR 0x7B # j # s1"
    and j: "j \<noteq> CHR 0x7B" "CHR 0x7B \<notin> set s1"
    and jp: "j = CHR ''P'' \<longrightarrow> piece_text p = ''{{PROJECT_NAME}}''"
      "j = CHR ''M'' \<longrightarrow> piece_text p = ''{{MODULE_NAME}}''"
      "j = CHR ''D'' \<longrightarrow> piece_text p = ''{{DB_TYPE}}''"
      "j = CHR ''G'' \<longrightarrow> piece_text p = ''{{GALAPLATE_CORE_VERSION}}''"
    and jk: "j \<in> {CHR ''P'', CHR ''M'', CHR ''D'', CHR ''G''}"
    by (cases p) auto
  have "j \<noteq> k"
  proof
    assume "j = k"
    with k ko jp jk have "piece_text p = old" by auto
    with assms(2) show False by simp
  qed
  from replace_scan_brace2 [OF o this j] show ?thesis unfolding p .
qed

lemma marker_hd: "old \<in> set markers \<Longrightarrow> old \<noteq> [] \<and> hd old = CHR 0x7B"
  by (auto simp: markers_def)

lemma replace_scan_pieces:
  assumes "old \<in> set markers"
  shows "list_all plain_piece ps \<Longrightarrow>
    replace_scan old v (concat (map piece_text ps))
      = concat (map piece_text (map (fill old v) ps))"
proof (induction ps)
  case Nil
  then show ?case by simp
next
  case (Cons p ps)
  then have ih: "replace_scan old v (concat (map piece_text ps))
      = concat (map piece_text (map (fill old v) ps))" by simp
  note mh = marker_hd [OF assms]
  show ?case
  proof (cases "\<exists>t. p = Text t")
    case True
    then obtain t where t: "p = Text t" by blast
    with Cons.prems have "hd old \<notin> set t" using mh by (simp add: brace_free_def)
    with mh have "replace_scan old v (t @ concat (map piece_text ps))
        = t @ replace_scan old v (concat (map piece_text ps))"
      by (simp add: replace_scan_skip)
    with t ih show ?thesis by simp
  next
    case False
    note nt = this
    show ?thesis
    proof (cases "piece_text p = old")
      case True
      with nt have f: "fill old v p = Text v" by (cases p) auto
      from mh have "replace_scan old v (old @ concat (map piece_text ps))
          = v @ replace_scan old v (concat (map piece_text ps))"
        by (simp add: replace_scan_hit)
      with True f ih show ?thesis by simp
    next
      case False
      with nt have f: "fill old v p = p" by (cases p) auto
      from nt have "\<forall>t. p \<noteq> Text t" by blast
      from replace_scan_other_marker [OF assms False this]
      have "replace_scan old v (piece_text p @ concat (map piece_text ps))
          = piece_text p @ replace_scan old v (concat (map piece_text ps))" .
      with f ih show ?thesis by simp
    qed
  qed
qed

lemma ReplaceAll_pieces:
  assumes "old \<in> set markers" "brace_free v" "list_all plain_piece ps"
  shows "ReplaceAll (concat (map piece_text ps)) old v
      = concat (map piece_text (map (fill old v) ps))"
proof -
  from marker_hd [OF assms(1)] have "CHR 0x7B \<in> set old" by (cases old) auto
  with assms(2) have "old \<noteq> v" by (auto simp: brace_free_def)
  with marker_hd [OF assms(1)] replace_scan_pieces [OF assms(1,3)]
  show ?thesis by (simp add: ReplaceAll_def)
qed

lemma plain_fill:
  "brace_free v \<Longrightarrow> list_all plain_piece ps \<Longrightarrow> list_all plain_piece (map (fill old v) ps)"
proof (induction ps)
  case Nil
  then show ?case by simp
next
  case (Cons p ps)
  then show ?case by (cases p) auto
qed

lemma fill_all_value:
  "piece_text
     (fill ''{{GALAPLATE_CORE_VERSION}}'' ''v0.0.0''
        (fill ''{{DB_TYPE}}'' (DbType opts)
           (fill ''{{MODULE_NAME}}'' (Module opts)
              (fill ''{{PROJECT_NAME}}'' (Name opts) p))))
   = piece_value opts p"
  by (cases p) simp_all

lemma template_text_pieces:
  assumes "list_all plain_piece ps"
    and "brace_free (Name opts)" "brace_free (Module opts)" "brace_free (DbType opts)"
  shows "template_text opts (concat (map piece_text ps)) = concat (map (piece_value opts) ps)"
proof -
  let ?p1 = "map (fill ''{{PROJECT_NAME}}'' (Name opts)) ps"
  let ?p2 = "map (fill ''{{MODULE_NAME}}'' (Module opts)) ?p1"
  let ?p3 = "map (fill ''{{DB_TYPE}}'' (DbType opts)) ?p2"
  let ?p4 = "map (fill ''{{GALAPLATE_CORE_VERSION}}'' ''v0.0.0'') ?p3"
  have m: "''{{PROJECT_NAME}}'' \<in> set markers" "''{{MODULE_NAME}}'' \<in> set markers"
    "''{{DB_TYPE}}'' \<in> set markers" "''{{GALAPLATE_CORE_VERSION}}'' \<in> set markers"
    by (simp_all add: markers_def)
  have bv: "brace_free ''v0.0.0''" by (simp add: brace_free_def)
  have pl1: "list_all plain_piece ?p1" using assms(2,1) by (rule plain_fill)
  have pl2: "list_all plain_piece ?p2" using assms(3) pl1 by (rule plain_fill)
  have pl3: "list_all plain_piece ?p3" using assms(4) pl2 by (rule plain_fill)
  have s1: "ReplaceAll (concat (map piece_text ps)) ''{{PROJECT_NAME}}'' (Name opts)
      = concat (map piece_text ?p1)"
    using m(1) assms(2,1) by (rule ReplaceAll_pieces)
  have s2: "ReplaceAll (concat (map piece_text ?p1)) ''{{MODULE_NAME}}'' (Module opts)
      = concat (map piece_text ?p2)"
    using m(2) assms(3) pl1 by (rule ReplaceAll_pieces)
  have s3: "ReplaceAll (concat (map piece_text ?p2)) ''{{DB_TYPE}}'' (DbType opts)
      = concat (map piece_text ?p3)"
    using m(3) assms(4) pl2 by (rule ReplaceAll_pieces)
  have s4: "ReplaceAll (concat (map piece_text ?p3)) ''{{GALAPLATE_CORE_VERSION}}'' ''v0.0.0''
      = concat (map piece_text ?p4)"
    using m(4) bv pl3 by (rule ReplaceAll_pieces)
  have "template_text opts (concat (map piece_text ps)) = concat (map piece_text ?p4)"
    unfolding template_text_def Let_def s1 s2 s3 s4 by (rule refl)
  also have "map piece_text ?p4 = map (piece_value opts) ps"
    by (simp add: fill_all_value)
  finally show ?thesis .
qed

lemma brace_free_values:
  assumes "list_all plain_piece ps"
    and "brace_free (Name opts)" "brace_free (Module opts)" "brace_free (DbType opts)"
  shows "brace_free (concat (map (piece_value opts) ps))"
  using assms(1)
proof (induction ps)
  case Nil
  then show ?case by (simp add: brace_free_def)
next
  case (Cons p ps)
  with assms(2-4) show ?case by (cases p) (auto simp: brace_free_def)
qed

text \<open>
  Claim C2, as the code has it. A copy of a source whose name ends in \<open>.template\<close> that
  succeeds leaves, at the destination path without the suffix, the content of the source
  after the four replacements, made one after the other in the order project name, module
  name, database kind, core version. When the template is made of text without an opening
  brace and of the four markers, and the project name, the module identifier and the
  database kind contain no opening brace, that text is the template with every marker
  replaced by its value, and none of the markers occurs in it.
\<close>

theorem copyFile_template:
  "(copyFile w src dest opts = (None, w') \<and> lookup w (resolve src) = Some (File m c)
      \<and> resolve src \<noteq> resolve dest \<and> HasSuffix src ''.template'' \<longrightarrow>
      (\<exists>m1. lookup w' (resolve (TrimSuffix dest ''.template''))
         = Some (File m1 (template_text opts c))))
   \<and> (list_all plain_piece ps \<and> brace_free (Name opts) \<and> brace_free (Module opts)
         \<and> brace_free (DbType opts) \<longrightarrow>
      template_text opts (concat (map piece_text ps)) = concat (map (piece_value opts) ps)
      \<and> (\<forall>mk \<in> set markers.
            \<not> sublist mk (template_text opts (concat (map piece_text ps)))))"
proof (intro conjI impI)
  assume a: "copyFile w src dest opts = (None, w') \<and> lookup w (resolve src) = Some (File m c)
      \<and> resolve src \<noteq> resolve dest \<and> HasSuffix src ''.template''"
  then have "spec_rule src = TemplateSuffix" by (simp add: spec_rule_def)
  with a copyFile_success(1) [of w src dest opts w' m c]
  show "\<exists>m1. lookup w' (resolve (TrimSuffix dest ''.template''))
         = Some (File m1 (template_text opts c))"
    by auto
next
  assume a: "list_all plain_piece ps \<and> brace_free (Name opts) \<and> brace_free (Module opts)
         \<and> brace_free (DbType opts)"
  then show "template_text opts (concat (map piece_text ps)) = concat (map (piece_value opts) ps)"
    by (simp add: template_text_pieces)
next
  assume a: "list_all plain_piece ps \<and> brace_free (Name opts) \<and> brace_free (Module opts)
         \<and> brace_free (DbType opts)"
  then have t: "template_text opts (concat (map piece_text ps))
      = concat (map (piece_value opts) ps)"
    by (simp add: template_text_pieces)
  from a have bf: "brace_free (concat (map (piece_value opts) ps))"
    by (simp add: brace_free_values)
  show "\<forall>mk \<in> set markers. \<not> sublist mk (template_text opts (concat (map piece_text ps)))"
  proof
    fix mk assume mk: "mk \<in> set markers"
    show "\<not> sublist mk (template_text opts (concat (map piece_text ps)))"
    proof
      assume "sublist mk (template_text opts (concat (map piece_text ps)))"
      then have "set mk \<subseteq> set (concat (map (piece_value opts) ps))"
        unfolding t by (rule set_mono_sublist)
      moreover from marker_hd [OF mk] have "CHR 0x7B \<in> set mk" by (cases mk) auto
      ultimately show False using bf by (auto simp: brace_free_def)
    qed
  qed
qed

theorem copyFile_template_witness:
  "(\<exists>m1. lookup
       (snd (copyFile (example_fs 0x12) ''/tmp/g/main.go.template'' ''demo/main.go.template''
          example_opts))
       (resolve ''demo/main.go'') = Some (File m1 ''package demo''))
   \<and> template_text example_opts ''package {{PROJECT_NAME}}; db {{DB_TYPE}}''
       = ''package demo; db postgres''
   \<and> \<not> sublist ''{{PROJECT_NAME}}''
       (template_text example_opts ''package {{PROJECT_NAME}}; db {{DB_TYPE}}'')"
proof -
  let ?src = "''/tmp/g/main.go.template''"
  let ?dest = "''demo/main.go.template''"
  let ?r = "copyFile (example_fs 0x12) ?src ?dest example_opts"
  let ?ps = "[Text ''package '', ProjectNameMarker, Text ''; db '', DbTypeMarker]"
  have run: "?r = (None, snd ?r)"
    by (simp add: copyFile_def example_fs_def example_opts_def eval_paths eval_fs eval_strings)
  have src: "lookup (example_fs 0x12) (resolve ?src) = Some (File 0x1ED ''package {{PROJECT_NAME}}'')"
    by (simp add: example_fs_def eval_paths eval_fs)
  have ne: "resolve ?src \<noteq> resolve ?dest"
    by (simp add: eval_paths)
  have hs: "HasSuffix ?src ''.template''"
    by (simp add: eval_paths)
  have ts: "TrimSuffix ?dest ''.template'' = ''demo/main.go''"
    by (simp add: eval_paths)
  have tt: "template_text example_opts ''package {{PROJECT_NAME}}'' = ''package demo''"
    by (simp add: example_opts_def eval_paths eval_strings)
  have h2: "list_all plain_piece ?ps \<and> brace_free (Name example_opts)
      \<and> brace_free (Module example_opts) \<and> brace_free (DbType example_opts)"
    by (simp add: brace_free_def example_opts_def)
  have c: "concat (map piece_text ?ps) = ''package {{PROJECT_NAME}}; db {{DB_TYPE}}''"
    by simp
  have v: "concat (map (piece_value example_opts) ?ps) = ''package demo; db postgres''"
    by (simp add: example_opts_def)
  have mk: "''{{PROJECT_NAME}}'' \<in> set markers" by (simp add: markers_def)
  note t = copyFile_template [of "example_fs 0x12" ?src ?dest example_opts "snd ?r" "0x1ED"
      "''package {{PROJECT_NAME}}''" ?ps]
  from t run src ne hs have
    "\<exists>m1. lookup (snd ?r) (resolve (TrimSuffix ?dest ''.template''))
       = Some (File m1 (template_text example_opts ''package {{PROJECT_NAME}}''))"
    by blast
  moreover from t h2 have
    "template_text example_opts (concat (map piece_text ?ps))
       = concat (map (piece_value example_opts) ?ps)"
    by blast
  moreover from t h2 mk have
    "\<not> sublist ''{{PROJECT_NAME}}'' (template_text example_opts (concat (map piece_text ?ps)))"
    by blast
  ultimately show ?thesis
    unfolding ts tt c v by blast
qed

text \<open>
  Claim C2 as stated fails in two ways. A value that is itself a marker stays in the
  text: with the database kind \<open>{{PROJECT_NAME}}\<close> the template \<open>{{DB_TYPE}}\<close> becomes
  \<open>{{PROJECT_NAME}}\<close>, since the project name was replaced before. And the destination
  has an entry at the path with the suffix: the empty file \<^verbatim>\<open>os.Create\<close> made before
  the name of the source was looked at.
\<close>

theorem copyFile_template_counterexample:
  "template_text (example_opts\<lparr>DbType := ''{{PROJECT_NAME}}''\<rparr>) ''{{DB_TYPE}}''
     = ''{{PROJECT_NAME}}''
   \<and> fst (copyFile (example_fs 0x12) ''/tmp/g/main.go.template'' ''demo/main.go.template''
        example_opts) = None
   \<and> lookup
       (snd (copyFile (example_fs 0x12) ''/tmp/g/main.go.template'' ''demo/main.go.template''
          example_opts))
       (resolve ''demo/main.go.template'') = Some (File 0x1A4 [])"
  by (simp add: copyFile_def example_fs_def example_opts_def eval_paths eval_fs eval_strings)

section \<open>Extraction\<close>

lemma umask_os_RemoveAll [simp]: "umask (os_RemoveAll w name) = umask w"
  by (simp add: os_RemoveAll_def split: sum.splits)










section \<open>Where an archive entry is written\<close>








section \<open>The paths of the walk\<close>

lemma plain_sep_free: "plain e \<Longrightarrow> SEP \<notin> set e"
  by (simp add: plain_def)
lemma Split_plain: "plain e \<Longrightarrow> Split SEP e = [e]"
  by (simp add: Split_no_sep plain_def)
lemma Join2_nonempty: "a \<noteq> [] \<Longrightarrow> Join [a, b] \<noteq> []"
  by (simp add: Join2_Clean Clean_nonempty)
lemma walk_path_snoc: "walk_path root (rel @ [n]) = Join [walk_path root rel, n]"
  by (simp add: walk_path_def)
lemma walk_path_nonempty: "root \<noteq> [] \<Longrightarrow> walk_path root rel \<noteq> []"
  by (induction rel rule: rev_induct) (simp_all add: walk_path_def Join2_nonempty)
lemma resolve_walk_path:
  "root \<noteq> [] \<Longrightarrow> list_all plain rel \<Longrightarrow>
   resolve (walk_path root rel) = (fst (resolve root), snd (resolve root) @ rel)"
proof (induction rel rule: rev_induct)
  case Nil
  then show ?case by (simp add: walk_path_def)
next
  case (snoc n rel)
  then have ih: "resolve (walk_path root rel) = (fst (resolve root), snd (resolve root) @ rel)"
    and n: "plain n" by simp_all
  have "resolve (Join [walk_path root rel, n])
      = (fst (resolve (walk_path root rel)),
         clean_elems (fst (resolve (walk_path root rel))) (Split SEP n)
           (snd (resolve (walk_path root rel))))"
    by (rule resolve_Join2) (rule walk_path_nonempty [OF snoc.prems(1)])
  moreover have "clean_elems b (Split SEP n) out = out @ [n]" for b out
    using n clean_elems_plain [of "[n]" b out] by (simp add: Split_plain del: clean_elems.simps)
  ultimately show ?case using ih
    by (simp add: walk_path_snoc del: clean_elems.simps)
qed
lemma strip_common_prefix: "strip_common xs (xs @ ys) = ([], ys)"
proof (induction xs)
  case Nil
  then show ?case by (cases ys) simp_all
next
  case (Cons x xs)
  then show ?case by simp
qed
lemma render_inj:
  "normal_elems (fst p) (snd p) \<Longrightarrow> normal_elems (fst q) (snd q) \<Longrightarrow>
   render p = render q \<Longrightarrow> p = q"
  by (metis resolve_render)
lemma normal_append_plain:
  "normal_elems r xs \<Longrightarrow> list_all plain ys \<Longrightarrow> normal_elems r (xs @ ys)"
proof (induction ys rule: rev_induct)
  case Nil
  then show ?case by simp
next
  case (snoc y ys)
  then have "normal_elems r (xs @ ys)" "plain y" by simp_all
  then have "normal_elems r ((xs @ ys) @ [y])" by (rule normal_elems_snoc_plain)
  then show ?case by simp
qed
lemma render_slashed:
  assumes "normal_elems (fst p) (snd p)"
  shows "(render p \<noteq> [] \<and> hd (render p) = SEP) = fst p"
proof (cases "fst p")
  case True
  then show ?thesis by (simp add: render_def)
next
  case False
  show ?thesis
  proof (cases "snd p = []")
    case True
    with False show ?thesis by (simp add: render_def SEP_def)
  next
    case ne: False
    then have h: "hd (snd p) \<in> set (snd p)" by simp
    from normal_not_empty [OF assms h] normal_sep_free [OF assms h]
    have "hd (hd (snd p)) \<noteq> SEP" "hd (snd p) \<noteq> []"
      by (cases "hd (snd p)"; auto)+
    then have "hd (Join_sep SEP (snd p)) \<noteq> SEP"
      using ne by (cases "snd p") (auto simp: Join_sep_Cons_if)
    with False ne show ?thesis by (simp add: render_def)
  qed
qed
lemma path_elems_render:
  assumes "normal_elems (fst p) (snd p)" "snd p \<noteq> []"
  shows "path_elems (render p) = (if fst p then [] # snd p else snd p)"
proof -
  have sf: "\<forall>e \<in> set (snd p). SEP \<notin> set e" using assms(1) normal_sep_free by blast
  have sp: "Split SEP (Join_sep SEP (snd p)) = snd p"
    using assms(2) sf by (rule Split_Join_sep)
  have ne: "render p \<noteq> []" using assms(1) by (rule render_nonempty)
  have nr: "render p \<noteq> [SEP]"
  proof
    assume "render p = [SEP]"
    then have "resolve (render p) = (True, [])" by simp
    with resolve_render [OF assms(1)] assms(2) show False by (cases p) simp
  qed
  show ?thesis
  proof (cases "fst p")
    case True
    then have "render p = SEP # Join_sep SEP (snd p)" by (simp add: render_def)
    with ne nr sp True show ?thesis by (simp add: path_elems_def)
  next
    case False
    then have "render p = Join_sep SEP (snd p)" using assms(2) by (simp add: render_def)
    with ne nr sp False show ?thesis by (simp add: path_elems_def)
  qed
qed
lemma Rel_walk_path:
  assumes "root \<noteq> []" "list_all plain rel"
  shows "Rel root (walk_path root rel) = Inr (if rel = [] then ''.'' else Join_sep SEP rel)"
proof (cases "rel = []")
  case True
  then show ?thesis by (simp add: Rel_def walk_path_def)
next
  case False
  let ?r = "resolve root"
  let ?t = "(fst ?r, snd ?r @ rel)"
  have nr: "normal_elems (fst ?r) (snd ?r)" by (rule normal_resolve)
  have nt: "normal_elems (fst ?t) (snd ?t)"
    using normal_append_plain [OF nr assms(2)] by simp
  have base: "Clean root = render ?r" by (simp add: Clean_render)
  have targ: "Clean (walk_path root rel) = render ?t"
    by (simp add: Clean_render resolve_walk_path [OF assms])
  have ne: "render ?t \<noteq> render ?r"
  proof
    assume "render ?t = render ?r"
    from render_inj [OF nt _ this] nr have "?t = ?r" by simp
    with False show False by (simp add: prod_eq_iff)
  qed
  let ?b1 = "if render ?r = ''.'' then [] else render ?r"
  have dot: "render ?r = ''.'' \<longleftrightarrow> (\<not> fst ?r \<and> snd ?r = [])"
  proof
    assume d: "render ?r = ''.''"
    then have "resolve (render ?r) = resolve ''.''" by simp
    with resolve_render [of ?r] nr have "?r = resolve ''.''" by simp
    then show "\<not> fst ?r \<and> snd ?r = []" by (simp add: resolve_def SEP_def)
  next
    assume "\<not> fst ?r \<and> snd ?r = []"
    then show "render ?r = ''.''" by (simp add: render_def)
  qed
  have bs: "(?b1 \<noteq> [] \<and> hd ?b1 = SEP) = fst ?r"
    using render_slashed [OF nr] dot by auto
  have tdot: "render ?t \<noteq> ''.''"
  proof
    assume d: "render ?t = ''.''"
    then have "resolve (render ?t) = resolve ''.''" by simp
    with resolve_render [OF nt] have "?t = resolve ''.''" by simp
    with False show False by (simp add: resolve_def SEP_def)
  qed
  have ts: "(render ?t \<noteq> [] \<and> hd (render ?t) = SEP) = fst ?r"
    using render_slashed [OF nt] by simp
  have pt: "path_elems (render ?t) = (if fst ?r then [] # snd ?r @ rel else snd ?r @ rel)"
    using path_elems_render [OF nt] False by simp
  have sc: "strip_common (path_elems ?b1) (path_elems (render ?t)) = ([], rel)"
  proof (cases "snd ?r = []")
    case True
    show ?thesis
    proof (cases "fst ?r")
      case True
      with \<open>snd ?r = []\<close> have "render ?r = [SEP]" by (simp add: render_def)
      then have "path_elems ?b1 = [[]]" by (simp add: path_elems_def SEP_def)
      with pt True \<open>snd ?r = []\<close> show ?thesis
        using strip_common_prefix [of "[]" rel] by simp
    next
      case False
      with \<open>snd ?r = []\<close> dot have "?b1 = []" by simp
      then have "path_elems ?b1 = []" by (simp add: path_elems_def)
      with pt False \<open>snd ?r = []\<close> show ?thesis
        using strip_common_prefix [of "[]" rel] by simp
    qed
  next
    case ne: False
    with dot have "?b1 = render ?r" by simp
    with path_elems_render [OF nr ne]
    have "path_elems ?b1 = (if fst ?r then [] # snd ?r else snd ?r)" by simp
    with pt show ?thesis
      using strip_common_prefix [of "snd ?r" rel] strip_common_prefix [of "[] # snd ?r" rel]
      by (cases "fst ?r") simp_all
  qed
  show ?thesis
    unfolding Rel_def Let_def base targ
    using ne bs ts sc False tdot by simp
qed
lemma resolve_dest_path:
  assumes "destDir \<noteq> []" "list_all plain rel" "rel \<noteq> []"
  shows "resolve (Join [destDir, Join_sep SEP rel])
      = (fst (resolve destDir), snd (resolve destDir) @ rel)"
proof -
  have "Split SEP (Join_sep SEP rel) = rel"
    using assms(3) by (rule Split_Join_sep) (use assms(2) in \<open>auto simp: list_all_iff plain_def\<close>)
  with resolve_Join2 [OF assms(1), of "Join_sep SEP rel"] assms(2)
  show ?thesis by (simp add: clean_elems_plain)
qed

end
